theory Spec2Isabelle
  imports Complex_Main "HOL-Library.Multiset"
begin

section \<open>Utilities: \<open>webscraper/utils.py\<close>\<close>

text \<open>
  Python values as far as \<open>flatten\<close> looks at them: an element of its argument is a list
  (\<open>isinstance(sublist, list)\<close>) or it is something else. The items of a sublist are not
  inspected, so their type is a parameter.
\<close>

datatype ('x, 'a) pyobj = NotList 'x | PyList "'a list"

datatype py_exception = ValueError string | TypeError string

fun is_list :: "('x, 'a) pyobj \<Rightarrow> bool" where
  "is_list (PyList xs) = True"
| "is_list (NotList x) = False"

fun list_items :: "('x, 'a) pyobj \<Rightarrow> 'a list" where
  "list_items (PyList xs) = xs"
| "list_items (NotList x) = []"

text \<open>
  \<^verbatim>\<open>
  def flatten(list_of_lists):
      if not all(isinstance(sublist, list) for sublist in list_of_lists):
          raise ValueError("All elements of the input must be of type list.")
      return [item for sublist in list_of_lists for item in sublist]
  \<close>
\<close>

definition flatten :: "('x, 'a) pyobj list \<Rightarrow> py_exception + 'a list" where
  "flatten list_of_lists =
     (if \<not> list_all is_list list_of_lists
      then Inl (ValueError ''All elements of the input must be of type list.'')
      else Inr (concat (map list_items list_of_lists)))"

text \<open>Whether a call raised Python's \<open>TypeError\<close>.\<close>

definition raises_type_error :: "py_exception + 'a \<Rightarrow> bool" where
  "raises_type_error res = (case res of Inl (TypeError msg) \<Rightarrow> True | _ \<Rightarrow> False)"

section \<open>The retry executor: \<open>retry\<close> in \<open>webscraper/asyncio.py\<close>\<close>

text \<open>
  One attempt is \<open>await asyncio.wait_for(coro(params), timeout=timeout)\<close>. It returns the
  coroutine's result, or it raises: the coroutine's own exception, or the time-out of
  \<open>wait_for\<close>. \<open>except Exception\<close> treats both alike, so an attempt has two outcomes.
  The unit of work is an effect; the model reads the outcome of the attempt made in
  iteration \<open>i\<close> of the loop from \<open>coro params i\<close>.
\<close>

datatype 'r attempt = Returns 'r | Raises

text \<open>
  What \<open>retry\<close> raises. \<open>TooManyRetries\<close> is the class of lines 16 to 33 with its
  \<open>params\<close>. \<open>OverflowError\<close> is raised by \<open>backoff_factor * (2**i)\<close>: \<open>backoff_factor\<close>
  is a float, \<open>2**i\<close> is an exact integer, and the product first converts the integer
  to a float, which fails from \<open>2**1024\<close> on.
\<close>

datatype 'p retry_error = TooManyRetries 'p | OverflowError

text \<open>What a run of \<open>retry\<close> does, in order: calls of the unit of work, and sleeps.\<close>

datatype event = Call nat | Sleep real

text \<open>
  \<^verbatim>\<open>
  retry_interval = 0.0
  for i in range(max_retries):
      try:
          return await asyncio.wait_for(coro(params), timeout=timeout)
      except Exception:
          await asyncio.sleep(retry_interval)
          retry_interval = backoff_factor * (2**i)
  raise TooManyRetries(params)
  \<close>
  \<open>retry_loop\<close> is the \<open>for\<close> loop over the remaining indices, with the current
  \<open>retry_interval\<close>. Durations are real numbers: the float product with a power of two is
  taken as exact, only its failure to convert \<open>2**i\<close> is modelled.
\<close>

fun retry_loop ::
  "('p \<Rightarrow> nat \<Rightarrow> 'r attempt) \<Rightarrow> 'p \<Rightarrow> real \<Rightarrow> real \<Rightarrow> nat list
    \<Rightarrow> event list \<times> ('p retry_error + 'r)" where
  "retry_loop coro params backoff_factor retry_interval [] = ([], Inl (TooManyRetries params))"
| "retry_loop coro params backoff_factor retry_interval (i # rest) =
     (case coro params i of
        Returns r \<Rightarrow> ([Call i], Inr r)
      | Raises \<Rightarrow>
          (if i < 1024
           then (case retry_loop coro params backoff_factor (backoff_factor * 2 ^ i) rest of
                   (evs, res) \<Rightarrow> (Call i # Sleep retry_interval # evs, res))
           else ([Call i, Sleep retry_interval], Inl OverflowError)))"

definition retry ::
  "('p \<Rightarrow> nat \<Rightarrow> 'r attempt) \<Rightarrow> 'p \<Rightarrow> int \<Rightarrow> real \<Rightarrow> event list \<times> ('p retry_error + 'r)" where
  "retry coro params max_retries backoff_factor =
     retry_loop coro params backoff_factor 0 [0..<nat max_retries]"

text \<open>
  The schedule as the specification words it: attempts \<open>0..n-1\<close>, no wait before attempt
  \<open>0\<close>, a wait of \<open>backoff_factor * 2^(i-1)\<close> before each attempt \<open>i > 0\<close>.
\<close>

definition spec_schedule :: "real \<Rightarrow> nat \<Rightarrow> event list" where
  "spec_schedule backoff_factor n =
     concat (map (\<lambda>i. (if i = 0 then [] else [Sleep (backoff_factor * 2 ^ (i - 1))]) @ [Call i])
       [0..<n])"

text \<open>
  The schedule of the code: every failed attempt \<open>j\<close> is followed by a sleep, of \<open>0\<close>
  after attempt \<open>0\<close> and of \<open>backoff_factor * 2^(j-1)\<close> after attempt \<open>j > 0\<close>.
\<close>

definition wait_after :: "real \<Rightarrow> nat \<Rightarrow> real" where
  "wait_after backoff_factor j = (if j = 0 then 0 else backoff_factor * 2 ^ (j - 1))"

definition failed_attempts :: "real \<Rightarrow> nat \<Rightarrow> nat \<Rightarrow> event list" where
  "failed_attempts backoff_factor i k =
     concat (map (\<lambda>j. [Call j, Sleep (wait_after backoff_factor j)]) [i..<k])"

section \<open>The pipeline orchestrator: \<open>make_requests\<close> in \<open>webscraper/asyncio.py\<close>\<close>

text \<open>\<open>BATCH_SIZE = 10_000\<close> (\<open>webscraper/_constants.py\<close>, line 46).\<close>

definition BATCH_SIZE :: nat where
  "BATCH_SIZE = 10000"

text \<open>The keyword arguments that \<open>make_requests\<close> passes on to \<open>retry\<close>.\<close>

record kwargs =
  kw_max_retries :: int
  kw_backoff_factor :: real

text \<open>
  What \<open>make_requests\<close> itself can raise: \<open>asyncio.Semaphore\<close> refuses a negative value
  with a \<open>ValueError\<close>; \<open>flatten\<close> has its \<open>ValueError\<close>; \<open>table_handler.insert_into\<close>
  raises whatever the storage raises (\<open>'e\<close>).
\<close>

datatype 'e make_requests_error =
  SemaphoreValueError | FlattenError py_exception | SinkError 'e

text \<open>A call returns, raises, or never returns.\<close>

datatype ('e, 'a) outcome = Return 'a | Raise 'e | Hang

text \<open>
  The local variables of \<open>make_requests\<close> that the loop changes, with the storage behind
  \<open>table_handler\<close> (\<open>db\<close>). \<open>flushed\<close> is not a variable of the code: it lists the arguments
  of the calls of \<open>table_handler.insert_into\<close> that have returned, in order.
\<close>

record ('p, 'r, 'db) state =
  results :: "'r list list"
  failed :: "'p list"
  succeeded :: nat
  db :: 'db
  flushed :: "'r list list"

text \<open>
  The two statements that both flush sites share:
  \<^verbatim>\<open>
  table_handler.insert_into(flatten(results))
  succeeded += len(results)
  \<close>
  \<open>results\<close> holds one list per finished task, so every element is a list.
\<close>

definition flush ::
  "('r list \<Rightarrow> 'db \<Rightarrow> 'e + 'db) \<Rightarrow> ('p, 'r, 'db) state
    \<Rightarrow> 'e make_requests_error + ('p, 'r, 'db) state" where
  "flush table_handler s =
     (case flatten (map (PyList :: 'r list \<Rightarrow> (unit, 'r) pyobj) (results s)) of
        Inl e \<Rightarrow> Inl (FlattenError e)
      | Inr records \<Rightarrow>
          (case table_handler records (db s) of
             Inl e \<Rightarrow> Inl (SinkError e)
           | Inr db' \<Rightarrow>
               Inr (s\<lparr>db := db', flushed := flushed s @ [records],
                       succeeded := succeeded s + length (results s)\<rparr>)))"

text \<open>
  The body of \<open>for task in done\<close> (lines 293 to 305). A finished task is its exception
  (\<open>Inl\<close>) or its result (\<open>Inr\<close>).
  \<^verbatim>\<open>
  if task.exception() is not None:
      task_exception = task.exception()
      if isinstance(task_exception, TooManyRetries):
          failed.append(task_exception.params)
  else:
      results.append(task.result())
      if len(results) >= BATCH_SIZE:
          table_handler.insert_into(flatten(results))
          succeeded += len(results)
          results.clear()
  \<close>
\<close>

definition handle_done ::
  "('r list \<Rightarrow> 'db \<Rightarrow> 'e + 'db) \<Rightarrow> 'p retry_error + 'r list \<Rightarrow> ('p, 'r, 'db) state
    \<Rightarrow> 'e make_requests_error + ('p, 'r, 'db) state" where
  "handle_done table_handler task s =
     (case task of
        Inl task_exception \<Rightarrow>
          (case task_exception of
             TooManyRetries params \<Rightarrow> Inr (s\<lparr>failed := failed s @ [params]\<rparr>)
           | OverflowError \<Rightarrow> Inr s)
      | Inr result \<Rightarrow>
          (let s1 = s\<lparr>results := results s @ [result]\<rparr> in
           if length (results s1) \<ge> BATCH_SIZE
           then (case flush table_handler s1 of
                   Inl e \<Rightarrow> Inl e
                 | Inr s2 \<Rightarrow> Inr (s2\<lparr>results := []\<rparr>))
           else Inr s1))"

text \<open>
  The loops of lines 288 to 305: \<open>asyncio.wait\<close> hands over the finished tasks in groups,
  and each task is handled once. The argument lists the tasks in the order in which
  they are handled.
\<close>

fun reduce_done ::
  "('r list \<Rightarrow> 'db \<Rightarrow> 'e + 'db) \<Rightarrow> ('p retry_error + 'r list) list \<Rightarrow> ('p, 'r, 'db) state
    \<Rightarrow> 'e make_requests_error + ('p, 'r, 'db) state" where
  "reduce_done table_handler [] s = Inr s"
| "reduce_done table_handler (task # rest) s =
     (case handle_done table_handler task s of
        Inl e \<Rightarrow> Inl e
      | Inr s' \<Rightarrow> reduce_done table_handler rest s')"

text \<open>
  The task of one work item: \<open>_semaphore_coroutine(params)\<close>, that is \<open>retry\<close> of the
  sessioned coroutine inside \<open>async with semaphore\<close>. Its outcome is what \<open>retry\<close> returns
  or raises. \<open>coro i\<close> is the behaviour of \<open>sessioned_coro\<close> in the task created for the
  \<open>i\<close>-th element of \<open>parameters\<close>.
\<close>

definition semaphore_coroutine ::
  "(nat \<Rightarrow> 'p \<Rightarrow> nat \<Rightarrow> 'r list attempt) \<Rightarrow> kwargs \<Rightarrow> nat \<Rightarrow> 'p \<Rightarrow> 'p retry_error + 'r list" where
  "semaphore_coroutine coro kw i params =
     snd (retry (coro i) params (kw_max_retries kw) (kw_backoff_factor kw))"

text \<open>
  The finished tasks in the order in which they are handled: \<open>order\<close> lists the indices
  of the tasks (positions in \<open>parameters\<close>) in completion order. The scheduler chooses it;
  every task finishes once, so \<open>order\<close> is a rearrangement of \<open>0..<len(parameters)\<close>
  (\<open>completion_order\<close>).
\<close>

definition finished_tasks ::
  "(nat \<Rightarrow> 'p \<Rightarrow> nat \<Rightarrow> 'r list attempt) \<Rightarrow> kwargs \<Rightarrow> 'p list \<Rightarrow> nat list
    \<Rightarrow> ('p retry_error + 'r list) list" where
  "finished_tasks coro kw parameters order =
     map (\<lambda>i. semaphore_coroutine coro kw i (parameters ! i)) order"

definition completion_order :: "'p list \<Rightarrow> nat list \<Rightarrow> bool" where
  "completion_order parameters order = (sort order = [0..<length parameters])"

definition initial :: "'db \<Rightarrow> ('p, 'r, 'db) state" where
  "initial db0 = \<lparr>results = [], failed = [], succeeded = 0, db = db0, flushed = []\<rparr>"

text \<open>
  \<open>make_requests\<close>, lines 272 to 311. \<open>asyncio.Semaphore(concurrency_limit)\<close> raises for a
  negative value; with the value \<open>0\<close> no task ever enters \<open>async with semaphore\<close>, so
  \<open>asyncio.wait\<close> never returns once there is a task. The result is the returned pair
  \<open>(succeeded, failed)\<close>, with the storage and the flushes made.
\<close>

definition make_requests ::
  "(nat \<Rightarrow> 'p \<Rightarrow> nat \<Rightarrow> 'r list attempt) \<Rightarrow> 'p list \<Rightarrow> int \<Rightarrow> ('r list \<Rightarrow> 'db \<Rightarrow> 'e + 'db)
    \<Rightarrow> kwargs \<Rightarrow> nat list \<Rightarrow> 'db
    \<Rightarrow> ('e make_requests_error, (nat \<times> 'p list) \<times> 'db \<times> 'r list list) outcome" where
  "make_requests coro parameters concurrency_limit table_handler kw order db0 =
     (if concurrency_limit < 0 then Raise SemaphoreValueError
      else if concurrency_limit = 0 \<and> parameters \<noteq> [] then Hang
      else
        (case reduce_done table_handler (finished_tasks coro kw parameters order) (initial db0) of
           Inl e \<Rightarrow> Raise e
         | Inr s \<Rightarrow>
             if length (results s) > 0
             then (case flush table_handler s of
                     Inl e \<Rightarrow> Raise e
                   | Inr s' \<Rightarrow> Return ((succeeded s', failed s'), db s', flushed s'))
             else Return ((succeeded s, failed s), db s, flushed s)))"

text \<open>Reading a list of finished tasks: the results, and the work items of the exhausted ones.\<close>

fun results_of :: "('p retry_error + 'a) list \<Rightarrow> 'a list" where
  "results_of [] = []"
| "results_of (Inr r # ts) = r # results_of ts"
| "results_of (Inl e # ts) = results_of ts"

fun exhausted_of :: "('p retry_error + 'a) list \<Rightarrow> 'p list" where
  "exhausted_of [] = []"
| "exhausted_of (Inl (TooManyRetries p) # ts) = p # exhausted_of ts"
| "exhausted_of (Inl OverflowError # ts) = exhausted_of ts"
| "exhausted_of (Inr r # ts) = exhausted_of ts"

text \<open>A list cut into consecutive batches of \<open>n\<close> elements, the last one shorter when there is a rest.\<close>

fun batches_of :: "nat \<Rightarrow> 'a list \<Rightarrow> 'a list list" where
  "batches_of n xs = (if n = 0 \<or> xs = [] then [] else take n xs # batches_of n (drop n xs))"

text \<open>
  The storage after calls of \<open>table_handler.insert_into\<close> with the given arguments, one
  call after the other, each on the storage that the call before left; the exception of
  the first call that raises.
\<close>

fun deliver :: "('r list \<Rightarrow> 'db \<Rightarrow> 'e + 'db) \<Rightarrow> 'r list list \<Rightarrow> 'db \<Rightarrow> 'e + 'db" where
  "deliver table_handler [] d = Inr d"
| "deliver table_handler (records # rest) d =
     (case table_handler records d of
        Inl e \<Rightarrow> Inl e
      | Inr d' \<Rightarrow> deliver table_handler rest d')"

text \<open>The sinks of the examples: the mock of \<open>tests/test_asyncio.py\<close>, whose \<open>insert_into\<close> does
  nothing, and a table that appends what it is given.\<close>

definition mock_insert_into :: "'r list \<Rightarrow> unit \<Rightarrow> unit + unit" where
  "mock_insert_into data u = Inr ()"

definition append_insert_into :: "'r list \<Rightarrow> 'r list \<Rightarrow> unit + 'r list" where
  "append_insert_into data tbl = Inr (tbl @ data)"

declare batches_of.simps [simp del]

text \<open>
  The outcome of the task of the \<open>i\<close>-th work item: it finished with a result, or it
  finished with \<open>TooManyRetries\<close> carrying this work item.
\<close>

definition task_succeeded ::
  "(nat \<Rightarrow> 'p \<Rightarrow> nat \<Rightarrow> 'r list attempt) \<Rightarrow> kwargs \<Rightarrow> 'p list \<Rightarrow> nat \<Rightarrow> bool" where
  "task_succeeded coro kw parameters i =
     (\<not> isl (semaphore_coroutine coro kw i (parameters ! i)))"

definition task_exhausted ::
  "(nat \<Rightarrow> 'p \<Rightarrow> nat \<Rightarrow> 'r list attempt) \<Rightarrow> kwargs \<Rightarrow> 'p list \<Rightarrow> nat \<Rightarrow> bool" where
  "task_exhausted coro kw parameters i =
     (semaphore_coroutine coro kw i (parameters ! i) = Inl (TooManyRetries (parameters ! i)))"

section \<open>Storage: \<open>TableHandler\<close> in \<open>webscraper/database.py\<close>\<close>

text \<open>
  A record is a Python \<open>dict\<close>: its items in insertion order, the keys pairwise
  different. The values of the records of this pipeline are \<open>None\<close>, integers and
  strings; \<open>PyOther\<close> stands for a value of a type that \<open>sqlite3\<close> cannot bind (a list, a
  dict). Floats and bytes, which the pipeline does not produce, are left out.
\<close>

datatype pyval = PyNone | PyInt int | PyStr string | PyOther

type_synonym pyrecord = "(string \<times> pyval) list"

text \<open>What a cell of a table holds.\<close>

datatype sqlval = SNull | SInteger int | SText string

type_synonym row = "sqlval list"

text \<open>A table: its rows in the order of \<open>SELECT *\<close>, which is the order of the rowids.\<close>

type_synonym table = "row list"

text \<open>
  The tables of \<open>webscraper/_constants.py\<close> declare columns of type \<open>INTEGER\<close> or \<open>TEXT\<close>,
  one of them the \<open>PRIMARY KEY\<close>. \<open>columns\<close> is what \<open>PRAGMA table_info\<close> lists, \<open>pk\<close> the
  position of the primary key.
\<close>

datatype affinity = INTEGER | TEXT

record table_schema =
  columns :: "(string \<times> affinity) list"
  pk :: nat

definition CATEGORIES_TABLE :: table_schema where
  "CATEGORIES_TABLE =
     \<lparr>columns = [(''id'', INTEGER), (''gender'', TEXT), (''category'', TEXT),
                 (''subcategory'', TEXT), (''base_url'', TEXT)], pk = 0\<rparr>"

definition PAGES_URLS_TABLE :: table_schema where
  "PAGES_URLS_TABLE = \<lparr>columns = [(''id'', INTEGER), (''page_url'', TEXT)], pk = 1\<rparr>"

definition ARTICLES_URLS_TABLE :: table_schema where
  "ARTICLES_URLS_TABLE =
     \<lparr>columns = [(''id'', INTEGER), (''page_url'', TEXT), (''article_url'', TEXT)], pk = 2\<rparr>"

definition ARTICLES_DATA_TABLE :: table_schema where
  "ARTICLES_DATA_TABLE =
     \<lparr>columns = [(''id'', INTEGER), (''article_url'', TEXT), (''description'', TEXT),
                 (''colour'', TEXT), (''tags'', TEXT), (''materials'', TEXT),
                 (''images_urls'', TEXT)], pk = 1\<rparr>"

definition DB_SCHEMA :: "string \<rightharpoonup> table_schema" where
  "DB_SCHEMA =
     [''categories'' \<mapsto> CATEGORIES_TABLE, ''pages_urls'' \<mapsto> PAGES_URLS_TABLE,
      ''articles_urls'' \<mapsto> ARTICLES_URLS_TABLE, ''articles_data'' \<mapsto> ARTICLES_DATA_TABLE]"

text \<open>
  What \<open>executemany\<close> raises: \<open>sqlite3.ProgrammingError\<close> for a parameter tuple whose
  length is not the number of placeholders (\<open>IncorrectBindings\<close>) and for a value of an
  unsupported type (\<open>UnsupportedType\<close>), \<open>OverflowError\<close> for an integer outside 64 bits
  (\<open>IntTooLarge\<close>), \<open>sqlite3.IntegrityError\<close> for a value that an \<open>INTEGER PRIMARY
  KEY\<close> cannot hold (\<open>DatatypeMismatch\<close>), and \<open>sqlite3.OperationalError\<close> when the
  search for an unused rowid fails (\<open>RowidsExhausted\<close>).
\<close>

datatype db_error =
  IncorrectBindings | UnsupportedType | IntTooLarge | DatatypeMismatch | RowidsExhausted

text \<open>Binding one Python value to a placeholder.\<close>

fun bind_value :: "pyval \<Rightarrow> db_error + sqlval" where
  "bind_value PyNone = Inr SNull"
| "bind_value (PyInt n) =
     (if - (2 ^ 63) \<le> n \<and> n < 2 ^ 63 then Inr (SInteger n) else Inl IntTooLarge)"
| "bind_value (PyStr s) = Inr (SText s)"
| "bind_value PyOther = Inl UnsupportedType"

fun bind_values :: "pyval list \<Rightarrow> db_error + sqlval list" where
  "bind_values [] = Inr []"
| "bind_values (v # vs) =
     (case bind_value v of
        Inl e \<Rightarrow> Inl e
      | Inr x \<Rightarrow> (case bind_values vs of Inl e \<Rightarrow> Inl e | Inr xs \<Rightarrow> Inr (x # xs)))"

text \<open>
  The row that one parameter tuple stores. The statement has one placeholder per
  column (\<open>",".join(["?"] * len(columns))\<close>), so the tuple must have as many values as
  the table has columns; the values go to the columns by position. On storing, SQLite
  converts a value according to the declared type of its column (text that looks like
  a number in an \<open>INTEGER\<close> column, a number in a \<open>TEXT\<close> column). The conversion is a
  function of the column's type and the value; it is the parameter \<open>coerce\<close>.
\<close>

definition stored_row ::
  "(affinity \<Rightarrow> sqlval \<Rightarrow> sqlval) \<Rightarrow> table_schema \<Rightarrow> pyval list \<Rightarrow> db_error + row" where
  "stored_row coerce sch params =
     (if length params \<noteq> length (columns sch) then Inl IncorrectBindings
      else (case bind_values params of
              Inl e \<Rightarrow> Inl e
            | Inr vals \<Rightarrow> Inr (map2 coerce (map snd (columns sch)) vals)))"

text \<open>
  An \<open>INTEGER PRIMARY KEY\<close> column is the rowid of its table (\<open>categories\<close>); a table
  whose primary key has another type has a hidden rowid (the other three tables).
\<close>

definition rowid_alias :: "table_schema \<Rightarrow> bool" where
  "rowid_alias sch = (snd (columns sch ! pk sch) = INTEGER)"

fun rowid_of :: "nat \<Rightarrow> row \<Rightarrow> int" where
  "rowid_of k r = (case r ! k of SInteger n \<Rightarrow> n | _ \<Rightarrow> 0)"

text \<open>
  When a rowid table holds the largest rowid, \<open>2^63 - 1\<close>, SQLite looks for an unused
  rowid for a \<open>NULL\<close> key by drawing candidates from \<open>1..2^62\<close> at random, and gives up
  after a number of draws that are all in use (\<open>sqlite3.OperationalError\<close>, the database
  is full). The outcome of this search is not determined by the table; it is the
  parameter \<open>draw\<close>: given the rowids in use, the unused candidate found, or \<open>None\<close>.
  An answer that is not an unused rowid in \<open>1..2^62\<close> is no candidate, and counts as a
  search that found none.
\<close>

type_synonym rowid_draw = "int list \<Rightarrow> int option"

text \<open>
  \<open>INSERT OR REPLACE\<close> of one row.
  \<^item> Rowid table: the key must be an integer or \<open>NULL\<close> after conversion, anything else
    is a datatype mismatch. An integer key replaces the row with this rowid, if there is
    one. A \<open>NULL\<close> key gets the largest rowid plus one (1 in an empty table), or, when the
    largest rowid is \<open>2^63 - 1\<close>, the unused rowid that the random search finds; the
    statement fails when the search finds none. Rows stay in rowid order.
  \<^item> Other tables: the rows with the same key are deleted, and the new row gets the
    largest rowid, so it comes last. \<open>NULL\<close> keys never conflict: SQLite admits \<open>NULL\<close> in
    a primary key that is not the rowid, and two \<open>NULL\<close>s count as different.
\<close>

definition replace_row :: "rowid_draw \<Rightarrow> table_schema \<Rightarrow> row \<Rightarrow> table \<Rightarrow> db_error + table" where
  "replace_row draw sch r tbl =
     (let k = pk sch in
      if rowid_alias sch then
        (case r ! k of
           SInteger n \<Rightarrow>
             Inr (insort_key (rowid_of k) r (filter (\<lambda>x. rowid_of k x \<noteq> n) tbl))
         | SNull \<Rightarrow>
             (if tbl = [] then Inr [r[k := SInteger 1]]
              else
                (let used = map (rowid_of k) tbl; m = fold max used (hd used) in
                 if m < 2 ^ 63 - 1
                 then Inr (insort_key (rowid_of k) (r[k := SInteger (m + 1)]) tbl)
                 else
                   (case draw used of
                      None \<Rightarrow> Inl RowidsExhausted
                    | Some v \<Rightarrow>
                        if 0 < v \<and> v \<le> 2 ^ 62 \<and> v \<notin> set used
                        then Inr (insort_key (rowid_of k) (r[k := SInteger v]) tbl)
                        else Inl RowidsExhausted)))
         | SText s \<Rightarrow> Inl DatatypeMismatch)
      else Inr (filter (\<lambda>x. r ! k = SNull \<or> x ! k \<noteq> r ! k) tbl @ [r]))"

definition execute_insert_or_replace ::
  "(affinity \<Rightarrow> sqlval \<Rightarrow> sqlval) \<Rightarrow> rowid_draw \<Rightarrow> table_schema \<Rightarrow> pyval list \<Rightarrow> table
    \<Rightarrow> db_error + table" where
  "execute_insert_or_replace coerce draw sch params tbl =
     (case stored_row coerce sch params of
        Inl e \<Rightarrow> Inl e
      | Inr r \<Rightarrow> replace_row draw sch r tbl)"

text \<open>
  A connection: the table as committed, and the table as the open transaction sees it.
  \<open>with self._connect() as conn\<close> commits when its body ends normally and rolls back
  when it raises.
\<close>

record connection =
  committed :: table
  working :: table

definition connect :: "table \<Rightarrow> connection" where
  "connect tbl = \<lparr>committed = tbl, working = tbl\<rparr>"

definition commit :: "connection \<Rightarrow> connection" where
  "commit conn = conn\<lparr>committed := working conn\<rparr>"

definition rollback :: "connection \<Rightarrow> connection" where
  "rollback conn = conn\<lparr>working := committed conn\<rparr>"

text \<open>\<open>cursor.executemany\<close>: one statement per parameter tuple, until one raises.\<close>

fun executemany ::
  "(affinity \<Rightarrow> sqlval \<Rightarrow> sqlval) \<Rightarrow> rowid_draw \<Rightarrow> table_schema \<Rightarrow> pyval list list
    \<Rightarrow> connection
    \<Rightarrow> connection \<times> db_error option" where
  "executemany coerce draw sch [] conn = (conn, None)"
| "executemany coerce draw sch (params # rest) conn =
     (case execute_insert_or_replace coerce draw sch params (working conn) of
        Inl e \<Rightarrow> (conn, Some e)
      | Inr tbl \<Rightarrow> executemany coerce draw sch rest (conn\<lparr>working := tbl\<rparr>))"

text \<open>
  \<^verbatim>\<open>
  def insert_into(self, data):
      with self._connect() as conn:
          cursor = conn.cursor()
          cursor.execute(f"PRAGMA table_info('{self._table_name}')")
          columns = [c[1] for c in cursor.fetchall()]
          string_columns = ",".join(columns)
          values = ",".join(["?"] * len(columns))
          cursor.executemany(
              f"""INSERT OR REPLACE INTO {self._table_name} ({string_columns})
              VALUES ({values})""",
              [tuple(c.values()) for c in data],
          )
          conn.commit()
  \<close>
  The result is the table as stored when the call has ended, and the exception if the
  call raised.
\<close>

definition insert_into ::
  "(affinity \<Rightarrow> sqlval \<Rightarrow> sqlval) \<Rightarrow> rowid_draw \<Rightarrow> table_schema \<Rightarrow> pyrecord list \<Rightarrow> table
    \<Rightarrow> table \<times> db_error option" where
  "insert_into coerce draw sch data tbl =
     (case executemany coerce draw sch (map (map snd) data) (connect tbl) of
        (conn, Some e) \<Rightarrow> (committed (rollback conn), Some e)
      | (conn, None) \<Rightarrow> (committed (commit conn), None))"

text \<open>Whether the field names of a record are the declared columns, in order.\<close>

definition fields_match :: "table_schema \<Rightarrow> pyrecord \<Rightarrow> bool" where
  "fields_match sch r = (map fst r = map fst (columns sch))"

text \<open>The conversion that changes nothing: what SQLite does to a value that is \<open>NULL\<close> or
  already has the type of its column, as all values of the examples are.\<close>

definition no_conversion :: "affinity \<Rightarrow> sqlval \<Rightarrow> sqlval" where
  "no_conversion a v = v"

text \<open>The random search that finds nothing. No table of the examples holds the largest
  rowid, so no example asks it.\<close>

definition gives_up :: rowid_draw where
  "gives_up used = None"

text \<open>The rows of a list of parameter tuples, when every tuple can be stored.\<close>

fun stored_rows ::
  "(affinity \<Rightarrow> sqlval \<Rightarrow> sqlval) \<Rightarrow> table_schema \<Rightarrow> pyval list list \<Rightarrow> db_error + row list" where
  "stored_rows coerce sch [] = Inr []"
| "stored_rows coerce sch (params # rest) =
     (case stored_row coerce sch params of
        Inl e \<Rightarrow> Inl e
      | Inr r \<Rightarrow> (case stored_rows coerce sch rest of Inl e \<Rightarrow> Inl e | Inr rs \<Rightarrow> Inr (r # rs)))"

text \<open>A rowid table lists its rows in the order of their rowids.\<close>

definition table_ok :: "table_schema \<Rightarrow> table \<Rightarrow> bool" where
  "table_ok sch tbl = (rowid_alias sch \<longrightarrow> sorted (map (rowid_of (pk sch)) tbl))"

text \<open>
  In a rowid table the primary key of every row is its rowid, an integer: SQLite stores
  no other value in an \<open>INTEGER PRIMARY KEY\<close>.
\<close>

fun is_integer :: "sqlval \<Rightarrow> bool" where
  "is_integer (SInteger n) = True"
| "is_integer v = False"

definition integer_keys :: "table_schema \<Rightarrow> table \<Rightarrow> bool" where
  "integer_keys sch tbl = (rowid_alias sch \<longrightarrow> list_all (\<lambda>x. is_integer (x ! pk sch)) tbl)"

text \<open>Storing rows one after the other, as long as none is refused.\<close>

fun replace_rows :: "rowid_draw \<Rightarrow> table_schema \<Rightarrow> row list \<Rightarrow> table \<Rightarrow> db_error + table" where
  "replace_rows draw sch [] tbl = Inr tbl"
| "replace_rows draw sch (r # rs) tbl =
     (case replace_row draw sch r tbl of
        Inl e \<Rightarrow> Inl e
      | Inr tbl' \<Rightarrow> replace_rows draw sch rs tbl')"

text \<open>What \<open>replace_row\<close> makes of the table for a row whose key is present and fits.\<close>

definition upsert :: "table_schema \<Rightarrow> row \<Rightarrow> table \<Rightarrow> table" where
  "upsert sch r tbl =
     (if rowid_alias sch
      then insort_key (rowid_of (pk sch)) r
             (filter (\<lambda>x. rowid_of (pk sch) x \<noteq> rowid_of (pk sch) r) tbl)
      else filter (\<lambda>x. x ! pk sch \<noteq> r ! pk sch) tbl @ [r])"

section \<open>The stage sequencer: \<open>scrape_ecommerce_site\<close> in \<open>main.py\<close>\<close>

text \<open>\<open>CONCURRENCY_LIMIT = 100\<close> (\<open>main.py\<close>, line 18).\<close>

definition CONCURRENCY_LIMIT :: int where
  "CONCURRENCY_LIMIT = 100"

text \<open>\<open>main.py\<close> passes no keyword arguments, so \<open>retry\<close> runs with its defaults
  \<open>max_retries=5\<close> and \<open>backoff_factor=1.0\<close>.\<close>

definition default_kwargs :: kwargs where
  "default_kwargs = \<lparr>kw_max_retries = 5, kw_backoff_factor = 1\<rparr>"

text \<open>The database file: the four tables of \<open>DB_SCHEMA\<close>.\<close>

record database =
  categories_table :: table
  pages_urls_table :: table
  articles_urls_table :: table
  articles_data_table :: table

text \<open>
  \<open>table.to_pandas().to_dict("records")\<close>: one \<open>dict\<close> per row, keyed by the column names,
  in the order of \<open>SELECT *\<close>. (A \<open>NULL\<close> in a column of numbers is read by pandas as
  \<open>NaN\<close>; the model reads every \<open>NULL\<close> as \<open>None\<close>.)
\<close>

fun to_python :: "sqlval \<Rightarrow> pyval" where
  "to_python SNull = PyNone"
| "to_python (SInteger n) = PyInt n"
| "to_python (SText s) = PyStr s"

definition to_records :: "table_schema \<Rightarrow> table \<Rightarrow> pyrecord list" where
  "to_records sch tbl = map (\<lambda>r. zip (map fst (columns sch)) (map to_python r)) tbl"

text \<open>\<open>insert_into\<close> of a \<open>TableHandler\<close> as \<open>make_requests\<close> calls it: it returns, with the
  table changed, or raises.\<close>

definition handler_insert_into ::
  "(affinity \<Rightarrow> sqlval \<Rightarrow> sqlval) \<Rightarrow> rowid_draw \<Rightarrow> table_schema \<Rightarrow> pyrecord list \<Rightarrow> table
    \<Rightarrow> db_error + table" where
  "handler_insert_into coerce draw sch data tbl =
     (case insert_into coerce draw sch data tbl of
        (tbl', None) \<Rightarrow> Inr tbl'
      | (tbl', Some e) \<Rightarrow> Inl e)"

text \<open>
  What the run meets outside the program: whether \<open>extract_categories_urls\<close> returns the
  categories or raises (its \<open>requests.get\<close> is not guarded); the outcome of every attempt
  of the three extractors, by task and attempt; the order in which the tasks of a
  pass finish, given the stage and the number of tasks; and the outcome of SQLite's
  random search for a rowid.
\<close>

record world =
  extract_categories_urls :: "unit + pyrecord list"
  compile_page_urls :: "nat \<Rightarrow> pyrecord \<Rightarrow> nat \<Rightarrow> pyrecord list attempt"
  compile_article_urls :: "nat \<Rightarrow> pyrecord \<Rightarrow> nat \<Rightarrow> pyrecord list attempt"
  compile_article_data :: "nat \<Rightarrow> pyrecord \<Rightarrow> nat \<Rightarrow> pyrecord list attempt"
  scheduler :: "nat \<Rightarrow> nat \<Rightarrow> nat list"
  random_rowid :: rowid_draw

text \<open>The messages of the logger: \<open>info\<close> and \<open>success\<close> with the stage, \<open>error\<close> with the
  stage, the number of failed requests and the number of requests.\<close>

datatype log_entry = Info nat | Success nat | Error nat nat nat

datatype scrape_error =
  CategoriesError | StorageError db_error | RequestsError "db_error make_requests_error"

text \<open>The \<open>if failed: logger.error(...)\<close> of a stage.\<close>

definition report :: "nat \<Rightarrow> pyrecord list \<Rightarrow> pyrecord list \<Rightarrow> log_entry list" where
  "report stage failed_items items =
     (if failed_items \<noteq> [] then [Error stage (length failed_items) (length items)] else [])"

text \<open>
  \<open>scrape_ecommerce_site\<close>, lines 21 to 65. An exception of a stage is not caught, so it
  ends the run. The result of a run that returns is the database, the log, and the work
  items handed to the three calls of \<open>make_requests\<close>, in order.
\<close>

definition scrape_ecommerce_site ::
  "(affinity \<Rightarrow> sqlval \<Rightarrow> sqlval) \<Rightarrow> world \<Rightarrow> database
    \<Rightarrow> (scrape_error, database \<times> log_entry list \<times> pyrecord list list) outcome" where
  "scrape_ecommerce_site coerce w d0 =
     (case extract_categories_urls w of
        Inl e \<Rightarrow> Raise CategoriesError
      | Inr categories \<Rightarrow>
     (case insert_into coerce (random_rowid w) CATEGORIES_TABLE categories (categories_table d0) of
        (t, Some e) \<Rightarrow> Raise (StorageError e)
      | (t1, None) \<Rightarrow>
     (case make_requests (compile_page_urls w) categories CONCURRENCY_LIMIT
             (handler_insert_into coerce (random_rowid w) PAGES_URLS_TABLE) default_kwargs
             (scheduler w 2 (length categories)) (pages_urls_table d0) of
        Raise e \<Rightarrow> Raise (RequestsError e)
      | Hang \<Rightarrow> Hang
      | Return ((n2, failed2), t2, b2) \<Rightarrow>
     (let pages_urls = to_records PAGES_URLS_TABLE t2 in
      case make_requests (compile_article_urls w) pages_urls CONCURRENCY_LIMIT
             (handler_insert_into coerce (random_rowid w) ARTICLES_URLS_TABLE) default_kwargs
             (scheduler w 3 (length pages_urls)) (articles_urls_table d0) of
        Raise e \<Rightarrow> Raise (RequestsError e)
      | Hang \<Rightarrow> Hang
      | Return ((n3, failed3), t3, b3) \<Rightarrow>
     (let articles_urls = to_records ARTICLES_URLS_TABLE t3 in
      case make_requests (compile_article_data w) articles_urls CONCURRENCY_LIMIT
             (handler_insert_into coerce (random_rowid w) ARTICLES_DATA_TABLE) default_kwargs
             (scheduler w 4 (length articles_urls)) (articles_data_table d0) of
        Raise e \<Rightarrow> Raise (RequestsError e)
      | Hang \<Rightarrow> Hang
      | Return ((n4, failed4), t4, b4) \<Rightarrow>
          Return
            (\<lparr>categories_table = t1, pages_urls_table = t2,
               articles_urls_table = t3, articles_data_table = t4\<rparr>,
             [Info 1, Success 1, Info 2] @ report 2 failed2 categories
               @ [Success 2, Info 3] @ report 3 failed3 pages_urls
               @ [Success 3, Info 4] @ report 4 failed4 articles_urls @ [Success 4],
             [categories, pages_urls, articles_urls]))))))"

text \<open>A record that its table can store: as many values as columns, each of a type that
  can be bound.\<close>

definition storable ::
  "(affinity \<Rightarrow> sqlval \<Rightarrow> sqlval) \<Rightarrow> table_schema \<Rightarrow> pyrecord \<Rightarrow> bool" where
  "storable coerce sch r = (\<not> isl (stored_row coerce sch (map snd r)))"

text \<open>An extractor whose every returned record its table can store.\<close>

definition yields_storable ::
  "(affinity \<Rightarrow> sqlval \<Rightarrow> sqlval) \<Rightarrow> table_schema
    \<Rightarrow> (nat \<Rightarrow> pyrecord \<Rightarrow> nat \<Rightarrow> pyrecord list attempt) \<Rightarrow> bool" where
  "yields_storable coerce sch coro =
     (\<forall>i p a rs. coro i p a = Returns rs \<longrightarrow> list_all (storable coerce sch) rs)"

text \<open>The stages that a log shows as started and completed, without the failure reports.\<close>

fun is_report :: "log_entry \<Rightarrow> bool" where
  "is_report (Error stage n m) = True"
| "is_report (Info stage) = False"
| "is_report (Success stage) = False"

text \<open>
  Worlds and databases for the examples. \<open>example_category\<close> is the first entry of
  \<open>MORE_CATEGORIES\<close>, with a short URL. In \<open>offline_world\<close> the categories are found and
  every later request fails. In \<open>example_world\<close> the category has two pages, the first
  page has one article, the request for the second page fails, and the article is read.
  \<open>earlier_database\<close> holds a category of an earlier run.
\<close>

definition example_category :: pyrecord where
  "example_category =
     [(''id'', PyInt 4172), (''gender'', PyStr ''women''), (''category'', PyStr ''shoes''),
      (''subcategory'', PyStr ''shoes''), (''base_url'', PyStr ''u'')]"

definition offline_world :: world where
  "offline_world =
     \<lparr>extract_categories_urls = Inr [example_category],
      compile_page_urls = (\<lambda>i p a. Raises),
      compile_article_urls = (\<lambda>i p a. Raises),
      compile_article_data = (\<lambda>i p a. Raises),
      scheduler = (\<lambda>stage n. [0..<n]),
      random_rowid = gives_up\<rparr>"

definition example_world :: world where
  "example_world =
     \<lparr>extract_categories_urls = Inr [example_category],
      compile_page_urls = (\<lambda>i p a.
        Returns [[(''id'', PyInt 4172), (''page_url'', PyStr ''u1'')],
                 [(''id'', PyInt 4172), (''page_url'', PyStr ''u2'')]]),
      compile_article_urls = (\<lambda>i p a.
        if i = 0
        then Returns [[(''id'', PyInt 4172), (''page_url'', PyStr ''u1''),
                       (''article_url'', PyStr ''a1'')]]
        else Raises),
      compile_article_data = (\<lambda>i p a.
        Returns [[(''id'', PyInt 4172), (''article_url'', PyStr ''a1''),
                  (''description'', PyStr ''d''), (''colour'', PyStr ''c''),
                  (''tags'', PyStr ''[]''), (''materials'', PyStr ''[]''),
                  (''img_urls'', PyStr ''[]'')]]),
      scheduler = (\<lambda>stage n. rev [0..<n]),
      random_rowid = gives_up\<rparr>"

definition empty_database :: database where
  "empty_database =
     \<lparr>categories_table = [], pages_urls_table = [], articles_urls_table = [],
      articles_data_table = []\<rparr>"

definition earlier_database :: database where
  "earlier_database =
     \<lparr>categories_table = [[SInteger 9, SText ''men'', SText ''old'', SText ''old'', SText ''v'']],
      pages_urls_table = [], articles_urls_table = [], articles_data_table = []\<rparr>"

section \<open>The concurrency limiter: the semaphore of \<open>make_requests\<close>\<close>

text \<open>
  \<^verbatim>\<open>
  semaphore = asyncio.Semaphore(concurrency_limit)

  async def _semaphore_coroutine(params):
      async with semaphore:
          return await retry(sessioned_coro, params, **kwargs)
  ...
  pending_tasks = set(
      [asyncio.create_task(_semaphore_coroutine(params)) for params in parameters]
  )
  \<close>
  All tasks are created before the first \<open>await\<close>, one per element of \<open>parameters\<close>. A task
  first waits at \<open>async with semaphore\<close>; once it has acquired the semaphore it runs
  \<open>retry\<close>, with all its attempts and sleeps, and when \<open>retry\<close> returns or raises, leaving
  the \<open>async with\<close> block releases the semaphore and the task is done with that outcome.
  The tasks interleave on one thread, so a run is a sequence of such steps.
\<close>

datatype 'o phase = Waiting | Running | Done 'o

record 'o limiter =
  sem_value :: nat
  tasks :: "'o phase list"


text \<open>
  The steps of a task. \<open>Acquire i\<close>: task \<open>i\<close> enters the block, which it can when it waits
  and the value of the semaphore is positive; the value goes down by one. \<open>Finish i\<close>: the
  \<open>retry\<close> of task \<open>i\<close> ends with the outcome \<open>outcome_of i\<close>, a result or an exception; the
  value goes up by one. A step that is not enabled gives \<open>None\<close>.
\<close>

datatype action = Acquire nat | Finish nat

fun step :: "(nat \<Rightarrow> 'o) \<Rightarrow> action \<Rightarrow> 'o limiter \<Rightarrow> 'o limiter option" where
  "step outcome_of (Acquire i) s =
     (if i < length (tasks s) \<and> tasks s ! i = Waiting \<and> 0 < sem_value s
      then Some (s\<lparr>sem_value := sem_value s - 1, tasks := (tasks s)[i := Running]\<rparr>)
      else None)"
| "step outcome_of (Finish i) s =
     (if i < length (tasks s) \<and> tasks s ! i = Running
      then Some (s\<lparr>sem_value := sem_value s + 1, tasks := (tasks s)[i := Done (outcome_of i)]\<rparr>)
      else None)"




section \<open>Theorems\<close>

subsection \<open>\<open>flatten\<close>\<close>

lemma flatten_all_lists: "flatten (map PyList xss) = Inr (concat xss)"
  by (simp add: flatten_def list_all_iff comp_def)

lemma flatten_non_list:
  "\<exists>x \<in> set xs. \<not> is_list x \<Longrightarrow>
   flatten xs = Inl (ValueError ''All elements of the input must be of type list.'')"
  by (auto simp: flatten_def list_all_iff)

text \<open>
  Claim C9, as stated, fails: on the input \<open>[1, 2, 3, 4, 5]\<close> of \<open>tests/test_utils.py\<close>,
  whose elements are not lists, \<open>flatten\<close> raises \<open>ValueError\<close>, which is not a type error
  (\<open>TypeError\<close>); the test expects \<open>ValueError\<close> too.
\<close>

theorem flatten_not_type_error:
  "flatten [NotList (1::int), NotList 2, NotList 3, NotList 4, NotList 5 :: (int, int) pyobj]
     = Inl (ValueError ''All elements of the input must be of type list.'')
   \<and> \<not> raises_type_error
        (flatten [NotList (1::int), NotList 2, NotList 3, NotList 4, NotList 5 :: (int, int) pyobj])"
  by (simp add: flatten_def raises_type_error_def)

text \<open>
  Claim C9, amended: \<open>flatten\<close> maps \<open>[[1,2,3],[4,5],[6,7,8]]\<close> to \<open>[1,2,3,4,5,6,7,8]\<close>,
  \<open>[[1,2],[],[3,4]]\<close> to \<open>[1,2,3,4]\<close> and the empty list to the empty list, and on every
  input that contains an element that is not a list it raises \<open>ValueError\<close> with the
  message "All elements of the input must be of type list.".
\<close>

theorem flatten_examples_and_value_error:
  "flatten [PyList [1, 2, 3], PyList [4, 5], PyList [6, 7, 8] :: ('x, int) pyobj]
       = Inr [1, 2, 3, 4, 5, 6, 7, 8]
   \<and> flatten [PyList [1, 2], PyList [], PyList [3, 4] :: ('x, int) pyobj] = Inr [1, 2, 3, 4]
   \<and> flatten ([] :: ('x, int) pyobj list) = Inr []
   \<and> ((\<exists>x \<in> set xs. \<not> is_list x) \<longrightarrow>
        flatten (xs :: ('x, int) pyobj list)
          = Inl (ValueError ''All elements of the input must be of type list.''))"
  using flatten_non_list [of xs] by (simp add: flatten_def)

theorem flatten_examples_and_value_error_witness:
  "(\<exists>x \<in> set [PyList [1, 2], NotList (7::int), PyList [3 :: int]]. \<not> is_list x)
   \<and> flatten [PyList [1, 2], NotList (7::int), PyList [3 :: int]]
       = Inl (ValueError ''All elements of the input must be of type list.'')"
  using flatten_examples_and_value_error [of "[PyList [1, 2], NotList (7::int), PyList [3 :: int]]"]
  by simp

subsection \<open>\<open>retry\<close>\<close>

lemma wait_after_Suc: "wait_after bf (Suc i) = bf * 2 ^ i"
  by (simp add: wait_after_def)

lemma failed_attempts_step:
  "i < k \<Longrightarrow> failed_attempts bf i k
     = Call i # Sleep (wait_after bf i) # failed_attempts bf (Suc i) k"
  by (simp add: failed_attempts_def upt_conv_Cons)

lemma failed_attempts_empty: "failed_attempts bf i i = []"
  by (simp add: failed_attempts_def)

lemma retry_loop_success:
  "i \<le> k \<Longrightarrow> k < n \<Longrightarrow> k \<le> 1024 \<Longrightarrow> (\<forall>j. i \<le> j \<and> j < k \<longrightarrow> coro p j = Raises)
   \<Longrightarrow> coro p k = Returns r
   \<Longrightarrow> retry_loop coro p bf (wait_after bf i) [i..<n] = (failed_attempts bf i k @ [Call k], Inr r)"
proof (induction "k - i" arbitrary: i)
  case 0
  then have "i = k" by simp
  with 0 show ?case by (simp add: upt_conv_Cons failed_attempts_empty)
next
  case (Suc d)
  then have lt: "i < k" and fails: "coro p i = Raises" by auto
  have ih: "retry_loop coro p bf (wait_after bf (Suc i)) [Suc i..<n]
              = (failed_attempts bf (Suc i) k @ [Call k], Inr r)"
    using Suc.hyps(1) [of "Suc i"] Suc.hyps(2) Suc.prems by auto
  from lt Suc.prems have "i < n" "i < 1024" by auto
  then show ?case
    using fails ih lt by (simp add: upt_conv_Cons wait_after_Suc failed_attempts_step)
qed

lemma retry_loop_exhausted:
  "i \<le> n \<Longrightarrow> n \<le> 1024 \<Longrightarrow> (\<forall>j. i \<le> j \<and> j < n \<longrightarrow> coro p j = Raises)
   \<Longrightarrow> retry_loop coro p bf (wait_after bf i) [i..<n]
        = (failed_attempts bf i n, Inl (TooManyRetries p))"
proof (induction "n - i" arbitrary: i)
  case 0
  then show ?case by (simp add: failed_attempts_empty)
next
  case (Suc d)
  then have lt: "i < n" and fails: "coro p i = Raises" by auto
  have ih: "retry_loop coro p bf (wait_after bf (Suc i)) [Suc i..<n]
              = (failed_attempts bf (Suc i) n, Inl (TooManyRetries p))"
    using Suc.hyps(1) [of "Suc i"] Suc.hyps(2) Suc.prems by auto
  from lt Suc.prems have "i < 1024" by auto
  then show ?case
    using fails ih lt by (simp add: upt_conv_Cons wait_after_Suc failed_attempts_step)
qed

lemma retry_loop_overflow:
  "i \<le> 1024 \<Longrightarrow> 1024 < n \<Longrightarrow> (\<forall>j. i \<le> j \<and> j \<le> 1024 \<longrightarrow> coro p j = Raises)
   \<Longrightarrow> retry_loop coro p bf (wait_after bf i) [i..<n]
        = (failed_attempts bf i 1025, Inl OverflowError)"
proof (induction "1024 - i" arbitrary: i)
  case 0
  then have "i = 1024" by simp
  with 0 show ?case
    by (simp add: upt_conv_Cons failed_attempts_step failed_attempts_empty)
next
  case (Suc d)
  then have lt: "i < 1024" and fails: "coro p i = Raises" by auto
  have ih: "retry_loop coro p bf (wait_after bf (Suc i)) [Suc i..<n]
              = (failed_attempts bf (Suc i) 1025, Inl OverflowError)"
    using Suc.hyps(1) [of "Suc i"] Suc.hyps(2) Suc.prems by auto
  from lt Suc.prems have "i < n" by auto
  then show ?case
    using fails ih lt by (simp add: upt_conv_Cons wait_after_Suc failed_attempts_step)
qed

text \<open>
  Claim C4, as stated, fails. With \<open>backoff_factor = 1\<close>, a unit that fails once and then
  succeeds is retried after a sleep of \<open>0\<close>, where the claim waits \<open>1 * 2^0 = 1\<close> before
  attempt \<open>1\<close>; a unit that always fails is called three times for \<open>max_retries = 3\<close>,
  with the sleeps \<open>0, 1, 2\<close>, the last one after the last attempt, where the claim has the
  two waits \<open>1, 2\<close> between the attempts; and a unit that always fails under
  \<open>max_retries = 1025\<close> ends in \<open>OverflowError\<close>, not in \<open>TooManyRetries\<close>.
\<close>

theorem retry_counterexample:
  "fst (retry (\<lambda>p i. if i = 0 then Raises else Returns (42::nat)) (7::nat) 5 1)
     = [Call 0, Sleep 0, Call 1]
   \<and> spec_schedule 1 2 = [Call 0, Sleep 1, Call 1]
   \<and> retry (\<lambda>p i. (Raises :: nat attempt)) (7::nat) 3 1
     = ([Call 0, Sleep 0, Call 1, Sleep 1, Call 2, Sleep 2], Inl (TooManyRetries 7))
   \<and> spec_schedule 1 3 = [Call 0, Sleep 1, Call 1, Sleep 2, Call 2]
   \<and> snd (retry (\<lambda>p i. (Raises :: nat attempt)) (7::nat) 1025 1) = Inl OverflowError"
proof -
  have a: "fst (retry (\<lambda>p i. if i = 0 then Raises else Returns (42::nat)) (7::nat) 5 1)
     = [Call 0, Sleep 0, Call 1]"
    by (simp add: retry_def upt_conv_Cons)
  have b: "spec_schedule 1 2 = [Call 0, Sleep 1, Call 1]"
    by (simp add: spec_schedule_def upt_conv_Cons)
  have c: "retry (\<lambda>p i. (Raises :: nat attempt)) (7::nat) 3 1
     = ([Call 0, Sleep 0, Call 1, Sleep 1, Call 2, Sleep 2], Inl (TooManyRetries 7))"
    by (simp add: retry_def upt_conv_Cons)
  have d: "spec_schedule 1 3 = [Call 0, Sleep 1, Call 1, Sleep 2, Call 2]"
    by (simp add: spec_schedule_def upt_conv_Cons)
  have "retry (\<lambda>p i. (Raises :: nat attempt)) (7::nat) 1025 1
          = (failed_attempts 1 0 1025, Inl OverflowError)"
    unfolding retry_def using retry_loop_overflow [of 0 1025 "\<lambda>p i. Raises" 7 1]
    by (simp add: wait_after_def)
  then have e: "snd (retry (\<lambda>p i. (Raises :: nat attempt)) (7::nat) 1025 1) = Inl OverflowError"
    by (simp only: snd_conv)
  from a b c d e show ?thesis by (intro conjI)
qed

text \<open>
  Claim C4, amended. Attempts are numbered from \<open>0\<close>. If the attempts before attempt \<open>k\<close> all
  fail and \<open>k \<le> 1024\<close>: (a) when attempt \<open>k < max_retries\<close> succeeds, \<open>retry\<close> returns its
  result after exactly the calls \<open>0..k\<close>, each failed call \<open>j\<close> followed by one sleep, of
  \<open>0\<close> for \<open>j = 0\<close> and of \<open>backoff_factor * 2^(j-1)\<close> for \<open>j > 0\<close> (so \<open>k\<close> sleeps for the
  \<open>k + 1\<close> calls); (b) when \<open>k = max_retries\<close>, so that all attempts fail, it raises
  \<open>TooManyRetries\<close> with the original \<open>params\<close> after exactly \<open>max_retries\<close> calls and as many
  sleeps, the last sleep after the last call.
\<close>

theorem retry_schedule:
  "(\<forall>j<k. coro params j = Raises) \<Longrightarrow> k \<le> 1024 \<Longrightarrow>
   (k < nat max_retries \<and> coro params k = Returns r \<longrightarrow>
      retry coro params max_retries backoff_factor
        = (failed_attempts backoff_factor 0 k @ [Call k], Inr r))
   \<and> (k = nat max_retries \<longrightarrow>
      retry coro params max_retries backoff_factor
        = (failed_attempts backoff_factor 0 k, Inl (TooManyRetries params)))"
  unfolding retry_def
  using retry_loop_success [of 0 k "nat max_retries" coro params r backoff_factor]
    retry_loop_exhausted [of 0 "nat max_retries" coro params backoff_factor]
  by (simp add: wait_after_def)

theorem retry_schedule_witness:
  "retry (\<lambda>p i. if i < 2 then Raises else Returns (42::nat)) (7::nat) 5 3
     = ([Call 0, Sleep 0, Call 1, Sleep 3, Call 2], Inr 42)
   \<and> retry (\<lambda>p i. (Raises :: nat attempt)) (7::nat) 3 3
     = ([Call 0, Sleep 0, Call 1, Sleep 3, Call 2, Sleep 6], Inl (TooManyRetries 7))"
  using retry_schedule [of 2 "\<lambda>p i. if i < 2 then Raises else Returns (42::nat)" "7::nat" 5 42 3]
    retry_schedule [of 3 "\<lambda>p i. (Raises :: nat attempt)" "7::nat" 3 0 3]
  by (simp add: failed_attempts_def wait_after_def upt_conv_Cons)

subsection \<open>The loop of \<open>make_requests\<close>\<close>

lemma flush_Inr:
  "flush ins s = Inr s' \<Longrightarrow>
   \<exists>db'. ins (concat (results s)) (db s) = Inr db' \<and>
     s' = s\<lparr>db := db', flushed := flushed s @ [concat (results s)],
            succeeded := succeeded s + length (results s)\<rparr>"
  by (auto simp: flush_def flatten_all_lists split: sum.splits)

lemma handle_done_exception:
  "handle_done ins (Inl e) s = Inr s' \<Longrightarrow>
   s' = (case e of TooManyRetries p \<Rightarrow> s\<lparr>failed := failed s @ [p]\<rparr> | OverflowError \<Rightarrow> s)"
  by (auto simp: handle_done_def split: retry_error.splits)

lemma handle_done_result_below:
  "length (results s) + 1 < BATCH_SIZE \<Longrightarrow>
   handle_done ins (Inr r) s = Inr (s\<lparr>results := results s @ [r]\<rparr>)"
  by (simp add: handle_done_def Let_def)

lemma handle_done_result_flush:
  "BATCH_SIZE \<le> length (results s) + 1 \<Longrightarrow> handle_done ins (Inr r) s = Inr s' \<Longrightarrow>
   \<exists>db'. ins (concat (results s @ [r])) (db s) = Inr db' \<and>
     s' = s\<lparr>results := [], db := db', flushed := flushed s @ [concat (results s @ [r])],
            succeeded := succeeded s + (length (results s) + 1)\<rparr>"
  by (auto simp: handle_done_def Let_def dest!: flush_Inr split: sum.splits)

text \<open>The invariant of the loop, from any state whose buffer is below the threshold.\<close>

lemma reduce_done_invariant:
  "reduce_done ins ts s0 = Inr s \<Longrightarrow> length (results s0) < BATCH_SIZE \<Longrightarrow>
   \<exists>full. results s0 @ results_of ts = concat full @ results s
     \<and> (\<forall>c \<in> set full. length c = BATCH_SIZE)
     \<and> length (results s) < BATCH_SIZE
     \<and> flushed s = flushed s0 @ map concat full
     \<and> succeeded s = succeeded s0 + BATCH_SIZE * length full
     \<and> failed s = failed s0 @ exhausted_of ts"
proof (induction ts arbitrary: s0)
  case Nil
  then show ?case by (intro exI [of _ "[]"]) simp
next
  case (Cons t ts)
  from Cons.prems(1) obtain s1 where
    step: "handle_done ins t s0 = Inr s1" and rest: "reduce_done ins ts s1 = Inr s"
    by (auto split: sum.splits)
  show ?case
  proof (cases t)
    case (Inl e)
    with step have s1: "s1 = (case e of TooManyRetries p \<Rightarrow> s0\<lparr>failed := failed s0 @ [p]\<rparr>
                                | OverflowError \<Rightarrow> s0)"
      by (simp add: handle_done_exception)
    then have "length (results s1) < BATCH_SIZE"
      using Cons.prems(2) by (simp split: retry_error.splits)
    from Cons.IH [OF rest this] obtain full where
      "results s1 @ results_of ts = concat full @ results s"
      "\<forall>c \<in> set full. length c = BATCH_SIZE"
      "length (results s) < BATCH_SIZE"
      "flushed s = flushed s1 @ map concat full"
      "succeeded s = succeeded s1 + BATCH_SIZE * length full"
      "failed s = failed s1 @ exhausted_of ts"
      by blast
    then show ?thesis
      using Inl s1 by (intro exI [of _ full]) (auto split: retry_error.splits)
  next
    case (Inr r)
    show ?thesis
    proof (cases "length (results s0) + 1 < BATCH_SIZE")
      case True
      with step Inr have s1: "s1 = s0\<lparr>results := results s0 @ [r]\<rparr>"
        by (simp add: handle_done_result_below)
      then have "length (results s1) < BATCH_SIZE" using True by simp
      from Cons.IH [OF rest this] obtain full where
        "results s1 @ results_of ts = concat full @ results s"
        "\<forall>c \<in> set full. length c = BATCH_SIZE"
        "length (results s) < BATCH_SIZE"
        "flushed s = flushed s1 @ map concat full"
        "succeeded s = succeeded s1 + BATCH_SIZE * length full"
        "failed s = failed s1 @ exhausted_of ts"
        by blast
      then show ?thesis
        using Inr s1 by (intro exI [of _ full]) auto
    next
      case False
      with Cons.prems(2) have len: "length (results s0) + 1 = BATCH_SIZE" by simp
      from False step Inr obtain db' where
        s1: "s1 = s0\<lparr>results := [], db := db',
                      flushed := flushed s0 @ [concat (results s0 @ [r])],
                      succeeded := succeeded s0 + (length (results s0) + 1)\<rparr>"
        using handle_done_result_flush [where s = s0 and r = r and ins = ins and s' = s1]
        by (auto simp: not_less)
      have "0 < BATCH_SIZE" by (simp add: BATCH_SIZE_def)
      then have "length (results s1) < BATCH_SIZE" using s1 by simp
      from Cons.IH [OF rest this] obtain full where
        "results s1 @ results_of ts = concat full @ results s"
        "\<forall>c \<in> set full. length c = BATCH_SIZE"
        "length (results s) < BATCH_SIZE"
        "flushed s = flushed s1 @ map concat full"
        "succeeded s = succeeded s1 + BATCH_SIZE * length full"
        "failed s = failed s1 @ exhausted_of ts"
        by blast
      then show ?thesis
        using Inr s1 len by (intro exI [of _ "(results s0 @ [r]) # full"]) auto
    qed
  qed
qed

lemma batches_of_full:
  "0 < n \<Longrightarrow> \<forall>c \<in> set full. length c = n \<Longrightarrow> length buf < n \<Longrightarrow>
   batches_of n (concat full @ buf) = full @ (if buf = [] then [] else [buf])"
proof (induction full)
  case Nil
  then show ?case
    by (simp add: batches_of.simps [of n buf] batches_of.simps [of n "[]"])
next
  case (Cons c full)
  then have "c \<noteq> []" by auto
  with Cons show ?case
    by (simp add: batches_of.simps [of n "c @ concat full @ buf"])
qed

lemma reduce_done_append:
  "reduce_done ins (xs @ ys) s0 = Inr s \<Longrightarrow>
   \<exists>s1. reduce_done ins xs s0 = Inr s1 \<and> reduce_done ins ys s1 = Inr s"
  by (induction xs arbitrary: s0) (auto split: sum.splits)

lemma length_concat_full:
  "\<forall>c \<in> set full. length c = n \<Longrightarrow> length (concat full) = n * length full"
  by (induction full) auto

lemma make_requests_Return:
  assumes "make_requests coro ps cl ins kw order db0 = Return ((n, fl), db', bs)"
  shows "\<exists>s. reduce_done ins (finished_tasks coro kw ps order) (initial db0) = Inr s
     \<and> n = succeeded s + length (results s) \<and> fl = failed s
     \<and> bs = flushed s @ (if results s = [] then [] else [concat (results s)])"
proof (cases "reduce_done ins (finished_tasks coro kw ps order) (initial db0)")
  case (Inl e)
  with assms show ?thesis by (simp add: make_requests_def split: if_splits)
next
  case (Inr s)
  show ?thesis
  proof (cases "results s = []")
    case True
    with assms Inr show ?thesis by (simp add: make_requests_def split: if_splits)
  next
    case False
    with assms Inr obtain s' where f: "flush ins s = Inr s'"
      and r: "n = succeeded s'" "fl = failed s'" "bs = flushed s'"
      by (simp add: make_requests_def split: if_splits sum.splits)
    from flush_Inr [OF f] obtain d where
      "s' = s\<lparr>db := d, flushed := flushed s @ [concat (results s)],
               succeeded := succeeded s + length (results s)\<rparr>" by blast
    with r Inr False show ?thesis by simp
  qed
qed

lemma make_requests_summary:
  assumes "make_requests coro ps cl ins kw order db0 = Return ((n, fl), db', bs)"
  shows "n = length (results_of (finished_tasks coro kw ps order))"
    and "fl = exhausted_of (finished_tasks coro kw ps order)"
    and "bs = map concat (batches_of BATCH_SIZE (results_of (finished_tasks coro kw ps order)))"
proof -
  let ?ts = "finished_tasks coro kw ps order"
  from make_requests_Return [OF assms] obtain s where
    loop: "reduce_done ins ?ts (initial db0) = Inr s" and
    n: "n = succeeded s + length (results s)" and fl: "fl = failed s" and
    bs: "bs = flushed s @ (if results s = [] then [] else [concat (results s)])"
    by blast
  have pos: "0 < BATCH_SIZE" by (simp add: BATCH_SIZE_def)
  from reduce_done_invariant [OF loop] pos obtain full where
    rs: "results_of ?ts = concat full @ results s" and
    full: "\<forall>c \<in> set full. length c = BATCH_SIZE" and
    buf: "length (results s) < BATCH_SIZE" and
    fs: "flushed s = map concat full" and
    sc: "succeeded s = BATCH_SIZE * length full" and
    fd: "failed s = exhausted_of ?ts"
    by (auto simp: initial_def)
  show "n = length (results_of ?ts)"
    using n sc rs length_concat_full [OF full] by simp
  show "fl = exhausted_of ?ts" using fl fd by simp
  show "bs = map concat (batches_of BATCH_SIZE (results_of ?ts))"
    using bs fs rs batches_of_full [OF pos full buf] by simp
qed

lemma concat_batches_of: "concat (batches_of n xs) = (if n = 0 then [] else xs)"
proof (induction n xs rule: batches_of.induct)
  case (1 n xs)
  then show ?case by (subst batches_of.simps) auto
qed

lemma concat_map_concat: "concat (map concat xss) = concat (concat xss)"
  by (induction xss) auto

text \<open>
  Claim C1, amended: for every run of \<open>make_requests\<close> that returns, the returned
  \<open>succeeded\<close> is the number of tasks that finished with a result (it counts work items
  whose request succeeded, not records); the flushes deliver exactly the records of these
  results, each once and in completion order, so the number of records delivered is the
  sum of the lengths of the results. A run where one item yields 0 records and another
  yields 3 returns \<open>succeeded = 2\<close>.
\<close>

theorem succeeded_counts_results:
  "make_requests coro parameters concurrency_limit table_handler kw order db0
     = Return ((n, failed_items), db', batches) \<Longrightarrow>
   n = length (results_of (finished_tasks coro kw parameters order))
   \<and> concat batches = concat (results_of (finished_tasks coro kw parameters order))
   \<and> sum_list (map length batches)
       = sum_list (map length (results_of (finished_tasks coro kw parameters order)))"
proof -
  assume ret: "make_requests coro parameters concurrency_limit table_handler kw order db0
     = Return ((n, failed_items), db', batches)"
  let ?rs = "results_of (finished_tasks coro kw parameters order)"
  have n: "n = length ?rs" by (rule make_requests_summary(1) [OF ret])
  have "batches = map concat (batches_of BATCH_SIZE ?rs)"
    by (rule make_requests_summary(3) [OF ret])
  then have "concat batches = concat (concat (batches_of BATCH_SIZE ?rs))"
    by (simp add: concat_map_concat)
  then have c: "concat batches = concat ?rs"
    by (simp add: concat_batches_of BATCH_SIZE_def)
  have "sum_list (map length batches) = length (concat batches)"
    by (simp add: length_concat)
  also have "\<dots> = sum_list (map length ?rs)" using c by (simp add: length_concat)
  finally show ?thesis using n c by simp
qed

lemmas run_simps = make_requests_def finished_tasks_def semaphore_coroutine_def retry_def
  upt_conv_Cons handle_done_def flush_def flatten_def initial_def BATCH_SIZE_def Let_def

text \<open>
  Claim C1, as stated, fails: in a run over two work items where the task of the first
  yields no record and the task of the second yields three, both requests succeed, the
  three records are delivered in one flush, and \<open>make_requests\<close> returns
  \<open>succeeded = 2\<close>, the number of successful requests (the docstring's "Number of
  succeeded requests"), not the number of records delivered, 3.
\<close>

theorem succeeded_counts_items_not_records:
  "(case make_requests (\<lambda>i p a. if i = 0 then Returns [] else Returns [''r1'', ''r2'', ''r3''])
           [''item0'', ''item1''] 3 append_insert_into
           \<lparr>kw_max_retries = 5, kw_backoff_factor = 1\<rparr> [0, 1] [] of
      Return ((n, failed_items), tbl, batches) \<Rightarrow>
        n = 2 \<and> failed_items = [] \<and> batches = [[''r1'', ''r2'', ''r3'']]
        \<and> length (concat batches) = 3 \<and> n \<noteq> length (concat batches)
    | Raise e \<Rightarrow> False
    | Hang \<Rightarrow> False)"
  by (simp add: run_simps append_insert_into_def)

theorem succeeded_counts_results_witness:
  "make_requests (\<lambda>i p a. if i = 0 then Returns [] else Returns [''r1'', ''r2'', ''r3''])
           [''item0'', ''item1''] 3 append_insert_into
           \<lparr>kw_max_retries = 5, kw_backoff_factor = 1\<rparr> [1, 0] []
     = Return ((2, []), [''r1'', ''r2'', ''r3''], [[''r1'', ''r2'', ''r3'']])
   \<and> length (results_of (finished_tasks
         (\<lambda>i p a. if i = 0 then Returns [] else Returns [''r1'', ''r2'', ''r3''])
         \<lparr>kw_max_retries = 5, kw_backoff_factor = 1\<rparr> [''item0'', ''item1''] [1, 0])) = 2"
proof -
  have ret: "make_requests (\<lambda>i p a. if i = 0 then Returns [] else Returns [''r1'', ''r2'', ''r3''])
           [''item0'', ''item1''] 3 append_insert_into
           \<lparr>kw_max_retries = 5, kw_backoff_factor = 1\<rparr> [1, 0] []
     = Return ((2, []), [''r1'', ''r2'', ''r3''], [[''r1'', ''r2'', ''r3'']])"
    by (simp add: run_simps append_insert_into_def)
  from succeeded_counts_results [OF ret] ret show ?thesis by simp
qed

text \<open>
  Claim C3 against the code: with \<open>max_retries = 1025\<close> a unit of work that always fails
  makes its task end with \<open>OverflowError\<close>, an error other than \<open>TooManyRetries\<close>.
  \<open>make_requests\<close> does not propagate it: the run returns normally, and the work item is
  neither counted in \<open>succeeded\<close> nor listed in \<open>failed\<close>.
\<close>

theorem other_error_is_dropped:
  "make_requests (\<lambda>i p a. (Raises :: string list attempt)) [''item0''] 1 mock_insert_into
     \<lparr>kw_max_retries = 1025, kw_backoff_factor = 1\<rparr> [0] ()
   = Return ((0, []), (), [])"
proof -
  have "retry (\<lambda>p a. (Raises :: string list attempt)) ''item0'' 1025 1
          = (failed_attempts 1 0 1025, Inl OverflowError)"
    unfolding retry_def
    using retry_loop_overflow [of 0 1025 "\<lambda>p a. (Raises :: string list attempt)" "''item0''" 1]
    by (simp add: wait_after_def)
  then have "semaphore_coroutine (\<lambda>i p a. (Raises :: string list attempt))
      \<lparr>kw_max_retries = 1025, kw_backoff_factor = 1\<rparr> 0 ''item0'' = Inl OverflowError"
    by (simp add: semaphore_coroutine_def)
  then show ?thesis
    by (simp add: make_requests_def finished_tasks_def handle_done_def initial_def)
qed

lemma retry_loop_exhausted_params:
  "snd (retry_loop coro p bf iv js) = Inl (TooManyRetries q) \<Longrightarrow> q = p"
proof (induction js arbitrary: iv)
  case Nil
  then show ?case by simp
next
  case (Cons a js)
  show ?case
  proof (cases "coro p a")
    case (Returns r)
    with Cons.prems show ?thesis by simp
  next
    case Raises
    show ?thesis
    proof (cases "a < 1024")
      case True
      with Raises Cons.prems
      have "snd (retry_loop coro p bf (bf * 2 ^ a) js) = Inl (TooManyRetries q)"
        by (simp split: prod.splits)
      then show ?thesis by (rule Cons.IH)
    next
      case False
      with Raises Cons.prems show ?thesis by simp
    qed
  qed
qed

lemma semaphore_coroutine_cases:
  "(\<exists>r. semaphore_coroutine coro kw i p = Inr r)
   \<or> semaphore_coroutine coro kw i p = Inl (TooManyRetries p)
   \<or> semaphore_coroutine coro kw i p = Inl OverflowError"
proof (cases "semaphore_coroutine coro kw i p")
  case (Inl e)
  then show ?thesis
    by (cases e) (auto simp: semaphore_coroutine_def retry_def dest: retry_loop_exhausted_params)
next
  case (Inr r)
  then show ?thesis by simp
qed

lemma exhausted_of_finished:
  "exhausted_of (finished_tasks coro kw ps order)
     = map ((!) ps) (filter (task_exhausted coro kw ps) order)"
proof (induction order)
  case Nil
  then show ?case by (simp add: finished_tasks_def)
next
  case (Cons i order)
  from semaphore_coroutine_cases [of coro kw i "ps ! i"] Cons show ?case
    by (auto simp: finished_tasks_def task_exhausted_def)
qed

lemma results_of_finished:
  "length (results_of (finished_tasks coro kw ps order))
     = length (filter (task_succeeded coro kw ps) order)"
proof (induction order)
  case Nil
  then show ?case by (simp add: finished_tasks_def)
next
  case (Cons i order)
  then show ?case
    by (cases "semaphore_coroutine coro kw i (ps ! i)")
      (auto simp: finished_tasks_def task_succeeded_def)
qed

lemma completion_order_mset:
  "completion_order ps order \<Longrightarrow> mset order = mset [0..<length ps]"
  unfolding completion_order_def by (metis mset_sort)

lemma completion_order_distinct: "completion_order ps order \<Longrightarrow> distinct order"
  unfolding completion_order_def by (metis distinct_sort distinct_upt)

lemma completion_order_set: "completion_order ps order \<Longrightarrow> set order = {0..<length ps}"
  unfolding completion_order_def by (metis set_sort set_upt)

lemma count_list_distinct: "distinct xs \<Longrightarrow> count_list xs x = (if x \<in> set xs then 1 else 0)"
  by (induction xs) auto

lemma succeeded_or_exhausted:
  "semaphore_coroutine coro kw i (ps ! i) \<noteq> Inl OverflowError \<Longrightarrow>
   task_exhausted coro kw ps i = (\<not> task_succeeded coro kw ps i)"
  using semaphore_coroutine_cases [of coro kw i "ps ! i"]
  by (auto simp: task_exhausted_def task_succeeded_def)


lemma length_filter_mset_eq:
  "mset xs = mset ys \<Longrightarrow> length (filter P xs) = length (filter P ys)"
  by (metis mset_filter size_mset)

text \<open>
  Claim C2, amended: for every run of \<open>make_requests\<close> that returns, in which every task is
  handled once and every task ends with a result or with \<open>TooManyRetries\<close>, each work item
  has exactly one outcome: either its task is one of the \<open>succeeded\<close> tasks, and it makes no
  entry in \<open>failed\<close>, or its task is not, and it makes exactly one entry in \<open>failed\<close>.
  \<open>succeeded\<close> is the number of work items of the first kind (it counts the item, not
  its records), \<open>failed\<close> lists the work items of the second kind in completion order,
  and the two together account for every work item. When the work items are pairwise
  different, a work item occurs in \<open>failed\<close> once or not at all accordingly.
\<close>

theorem every_item_one_outcome:
  assumes co: "completion_order parameters order"
    and ret: "make_requests coro parameters concurrency_limit table_handler kw order db0
                = Return ((n, failed_items), db', batches)"
    and no_other: "\<forall>i<length parameters.
                semaphore_coroutine coro kw i (parameters ! i) \<noteq> Inl OverflowError"
  shows "n = length (filter (task_succeeded coro kw parameters) [0..<length parameters])
    \<and> failed_items = map ((!) parameters) (filter (task_exhausted coro kw parameters) order)
    \<and> n + length failed_items = length parameters
    \<and> (\<forall>i<length parameters.
          (task_succeeded coro kw parameters i
            \<and> count_list (filter (task_exhausted coro kw parameters) order) i = 0)
        \<or> (\<not> task_succeeded coro kw parameters i
            \<and> count_list (filter (task_exhausted coro kw parameters) order) i = 1))
    \<and> (distinct parameters \<longrightarrow>
         (\<forall>i<length parameters. count_list failed_items (parameters ! i)
            = (if task_succeeded coro kw parameters i then 0 else 1)))"
proof -
  let ?S = "task_succeeded coro kw parameters"
  let ?E = "task_exhausted coro kw parameters"
  let ?N = "length parameters"
  have ms: "mset order = mset [0..<?N]" by (rule completion_order_mset [OF co])
  have dist: "distinct order" by (rule completion_order_distinct [OF co])
  have st: "set order = {0..<?N}" by (rule completion_order_set [OF co])
  have compl: "?E i = (\<not> ?S i)" if "i < ?N" for i
    using no_other that by (simp add: succeeded_or_exhausted)
  have "n = length (filter ?S order)"
    using make_requests_summary(1) [OF ret] by (simp add: results_of_finished)
  then have n: "n = length (filter ?S [0..<?N])"
    using length_filter_mset_eq [OF ms] by simp
  have f: "failed_items = map ((!) parameters) (filter ?E order)"
    using make_requests_summary(2) [OF ret] by (simp add: exhausted_of_finished)
  have "length (filter ?E order) = length (filter ?E [0..<?N])"
    using length_filter_mset_eq [OF ms] by simp
  also have "filter ?E [0..<?N] = filter (\<lambda>i. \<not> ?S i) [0..<?N]"
    by (rule filter_cong) (auto simp: compl)
  finally have "n + length failed_items
      = length (filter ?S [0..<?N]) + length (filter (\<lambda>i. \<not> ?S i) [0..<?N])"
    using n f by simp
  then have total: "n + length failed_items = ?N"
    by (simp add: sum_length_filter_compl)
  have cnt: "count_list (filter ?E order) i = (if ?S i then 0 else 1)" if "i < ?N" for i
    using that dist st compl [OF that] by (simp add: count_list_distinct)
  have once: "\<forall>i<?N. (?S i \<and> count_list (filter ?E order) i = 0)
        \<or> (\<not> ?S i \<and> count_list (filter ?E order) i = 1)"
    using cnt by auto
  have items: "\<forall>i<?N. count_list failed_items (parameters ! i) = (if ?S i then 0 else 1)"
    if d: "distinct parameters"
  proof (intro allI impI)
    fix i assume i: "i < ?N"
    have inj: "inj_on ((!) parameters) (set (filter ?E order) \<union> {i})"
      using d st i by (auto simp: inj_on_def nth_eq_iff_index_eq)
    have "count_list (map ((!) parameters) (filter ?E order)) (parameters ! i)
            = count_list (filter ?E order) i"
    proof (cases "i \<in> set (filter ?E order)")
      case True
      then show ?thesis
        using inj by (intro count_list_inj_map) (auto simp: inj_on_def)
    next
      case False
      then have "parameters ! i \<notin> (!) parameters ` set (filter ?E order)"
        using inj by (auto simp: inj_on_def)
      with False show ?thesis by simp
    qed
    then show "count_list failed_items (parameters ! i) = (if ?S i then 0 else 1)"
      using f cnt [OF i] by simp
  qed
  from n f total once items show ?thesis by blast
qed

text \<open>
  Claim C2, as stated, fails, in two ways. In the first run the task of \<open>item0\<close> yields
  three records and \<open>item1\<close> exhausts its retries: \<open>item0\<close> is not in \<open>failed\<close>, its three
  records are delivered, but \<open>succeeded\<close> is 1; the records are not what is counted. In the
  second run the task of \<open>item0\<close> ends with an error other than
  \<open>TooManyRetries\<close>: the run returns \<open>(0, [])\<close>, the item is neither counted nor in \<open>failed\<close>.
\<close>

theorem one_outcome_counterexample:
  "(case make_requests (\<lambda>i p a. if i = 0 then Returns [''r1'', ''r2'', ''r3''] else Raises)
           [''item0'', ''item1''] 3 append_insert_into
           \<lparr>kw_max_retries = 2, kw_backoff_factor = 1\<rparr> [0, 1] [] of
      Return ((n, failed_items), tbl, batches) \<Rightarrow>
        failed_items = [''item1''] \<and> batches = [[''r1'', ''r2'', ''r3'']] \<and> n = 1
        \<and> n \<noteq> length (concat batches)
    | Raise e \<Rightarrow> False
    | Hang \<Rightarrow> False)
   \<and> (case make_requests (\<lambda>i p a. (Raises :: string list attempt)) [''item0''] 3
           append_insert_into \<lparr>kw_max_retries = 1025, kw_backoff_factor = 1\<rparr> [0] [] of
      Return ((n, failed_items), tbl, batches) \<Rightarrow>
        n = 0 \<and> ''item0'' \<notin> set failed_items \<and> batches = []
    | Raise e \<Rightarrow> False
    | Hang \<Rightarrow> False)"
proof -
  have a: "make_requests (\<lambda>i p a. if i = 0 then Returns [''r1'', ''r2'', ''r3''] else Raises)
           [''item0'', ''item1''] 3 append_insert_into
           \<lparr>kw_max_retries = 2, kw_backoff_factor = 1\<rparr> [0, 1] []
      = Return ((1, [''item1'']), [''r1'', ''r2'', ''r3''], [[''r1'', ''r2'', ''r3'']])"
    by (simp add: run_simps append_insert_into_def)
  have "retry (\<lambda>p a. (Raises :: string list attempt)) ''item0'' 1025 1
          = (failed_attempts 1 0 1025, Inl OverflowError)"
    unfolding retry_def
    using retry_loop_overflow [of 0 1025 "\<lambda>p a. (Raises :: string list attempt)" "''item0''" 1]
    by (simp add: wait_after_def)
  then have "semaphore_coroutine (\<lambda>i p a. (Raises :: string list attempt))
      \<lparr>kw_max_retries = 1025, kw_backoff_factor = 1\<rparr> 0 ''item0'' = Inl OverflowError"
    by (simp add: semaphore_coroutine_def)
  then have b: "make_requests (\<lambda>i p a. (Raises :: string list attempt)) [''item0''] 3
           append_insert_into \<lparr>kw_max_retries = 1025, kw_backoff_factor = 1\<rparr> [0] []
      = Return ((0, []), [], [])"
    by (simp add: make_requests_def finished_tasks_def handle_done_def initial_def)
  show ?thesis by (simp only: a b) simp
qed

theorem every_item_one_outcome_witness:
  "completion_order [''item0'', ''item1''] [1, 0]
   \<and> make_requests (\<lambda>i p a. if i = 0 then Returns [''r1'', ''r2'', ''r3''] else Raises)
           [''item0'', ''item1''] 3 append_insert_into
           \<lparr>kw_max_retries = 2, kw_backoff_factor = 1\<rparr> [1, 0] []
      = Return ((1, [''item1'']), [''r1'', ''r2'', ''r3''], [[''r1'', ''r2'', ''r3'']])
   \<and> length (filter (task_succeeded
          (\<lambda>i p a. if i = 0 then Returns [''r1'', ''r2'', ''r3''] else Raises)
          \<lparr>kw_max_retries = 2, kw_backoff_factor = 1\<rparr> [''item0'', ''item1'']) [0..<2]) = 1
   \<and> map ((!) [''item0'', ''item1'']) (filter (task_exhausted
          (\<lambda>i p a. if i = 0 then Returns [''r1'', ''r2'', ''r3''] else Raises)
          \<lparr>kw_max_retries = 2, kw_backoff_factor = 1\<rparr> [''item0'', ''item1'']) [1, 0])
      = [''item1'']"
proof -
  let ?C = "\<lambda>(i::nat) (p::string) (a::nat). if i = 0 then Returns [''r1'', ''r2'', ''r3''] else Raises"
  let ?K = "\<lparr>kw_max_retries = 2, kw_backoff_factor = 1\<rparr>"
  have co: "completion_order [''item0'', ''item1''] [1, 0]"
    by (simp add: completion_order_def upt_conv_Cons)
  have ret: "make_requests ?C [''item0'', ''item1''] 3 append_insert_into ?K [1, 0] []
      = Return ((1, [''item1'']), [''r1'', ''r2'', ''r3''], [[''r1'', ''r2'', ''r3'']])"
    by (simp add: run_simps append_insert_into_def)
  have no: "\<forall>i<length [''item0'', ''item1''].
      semaphore_coroutine ?C ?K i ([''item0'', ''item1''] ! i) \<noteq> Inl OverflowError"
    by (auto simp: less_Suc_eq semaphore_coroutine_def retry_def upt_conv_Cons)
  from every_item_one_outcome [OF co ret no] co ret show ?thesis
    by (simp add: task_succeeded_def task_exhausted_def semaphore_coroutine_def retry_def
        upt_conv_Cons)
qed

lemma div_mod_decompose:
  fixes b q r :: nat
  assumes "m = b * q + r" "r < b"
  shows "m div b = q" and "m mod b = r"
  using assms by auto

lemma deliver_append:
  "deliver ins (xs @ ys) d =
     (case deliver ins xs d of Inl e \<Rightarrow> Inl e | Inr d' \<Rightarrow> deliver ins ys d')"
  by (induction xs arbitrary: d) (auto split: sum.splits)

lemma handle_done_db:
  "handle_done ins t s0 = Inr s1 \<Longrightarrow>
   \<exists>bs. flushed s1 = flushed s0 @ bs \<and> deliver ins bs (db s0) = Inr (db s1)"
  by (auto simp: handle_done_def Let_def flush_def flatten_all_lists
      split: sum.splits retry_error.splits if_splits)

lemma reduce_done_db:
  "reduce_done ins ts s0 = Inr s \<Longrightarrow>
   \<exists>bs. flushed s = flushed s0 @ bs \<and> deliver ins bs (db s0) = Inr (db s)"
proof (induction ts arbitrary: s0)
  case Nil
  then show ?case by simp
next
  case (Cons t ts)
  from Cons.prems obtain s1 where
    step: "handle_done ins t s0 = Inr s1" and rest: "reduce_done ins ts s1 = Inr s"
    by (auto split: sum.splits)
  from handle_done_db [OF step] obtain bs1 where
    b1: "flushed s1 = flushed s0 @ bs1" "deliver ins bs1 (db s0) = Inr (db s1)" by blast
  from Cons.IH [OF rest] obtain bs2 where
    b2: "flushed s = flushed s1 @ bs2" "deliver ins bs2 (db s1) = Inr (db s)" by blast
  from b1 b2 show ?case
    by (intro exI [of _ "bs1 @ bs2"]) (simp add: deliver_append)
qed

lemma make_requests_Return_db:
  assumes "make_requests coro ps cl ins kw order db0 = Return ((n, fl), db', bs)"
  shows "deliver ins bs db0 = Inr db'"
proof (cases "reduce_done ins (finished_tasks coro kw ps order) (initial db0)")
  case (Inl e)
  with assms show ?thesis by (simp add: make_requests_def split: if_splits)
next
  case (Inr s)
  from reduce_done_db [OF Inr] have loop: "deliver ins (flushed s) db0 = Inr (db s)"
    by (simp add: initial_def)
  show ?thesis
  proof (cases "results s = []")
    case True
    with assms Inr loop show ?thesis by (simp add: make_requests_def split: if_splits)
  next
    case False
    with assms Inr obtain s' where f: "flush ins s = Inr s'"
      and r: "db' = db s'" "bs = flushed s'"
      by (simp add: make_requests_def split: if_splits sum.splits)
    from flush_Inr [OF f] obtain d where
      "ins (concat (results s)) (db s) = Inr d"
      "s' = s\<lparr>db := d, flushed := flushed s @ [concat (results s)],
               succeeded := succeeded s + length (results s)\<rparr>" by blast
    with r loop show ?thesis by (simp add: deliver_append)
  qed
qed

lemma loop_prefix:
  assumes loop: "reduce_done ins ts (initial db0) = Inr s"
    and k: "k \<le> length ts"
  shows "\<exists>s1. reduce_done ins (take k ts) (initial db0) = Inr s1
       \<and> length (flushed s1) = length (results_of (take k ts)) div BATCH_SIZE
       \<and> length (results s1) = length (results_of (take k ts)) mod BATCH_SIZE
       \<and> results s1 = drop (BATCH_SIZE * length (flushed s1)) (results_of (take k ts))
       \<and> deliver ins (flushed s1) db0 = Inr (db s1)
       \<and> (\<exists>rest. flushed s = flushed s1 @ rest)"
proof -
  have pos: "0 < BATCH_SIZE" by (simp add: BATCH_SIZE_def)
  from loop have "reduce_done ins (take k ts @ drop k ts) (initial db0) = Inr s" by simp
  from reduce_done_append [OF this] obtain s1 where
    one: "reduce_done ins (take k ts) (initial db0) = Inr s1" and
    two: "reduce_done ins (drop k ts) s1 = Inr s"
    by blast
  from reduce_done_invariant [OF one] pos obtain full where
    rs: "results_of (take k ts) = concat full @ results s1" and
    full: "\<forall>c \<in> set full. length c = BATCH_SIZE" and
    buf: "length (results s1) < BATCH_SIZE" and
    fs: "flushed s1 = map concat full"
    by (auto simp: initial_def)
  from reduce_done_invariant [OF two buf] obtain full2 where
    "flushed s = flushed s1 @ map concat full2"
    by blast
  then have pre: "\<exists>rest. flushed s = flushed s1 @ rest" by blast
  have lc: "length (concat full) = BATCH_SIZE * length full"
    by (rule length_concat_full [OF full])
  have "length (results_of (take k ts)) = BATCH_SIZE * length full + length (results s1)"
    using rs lc by simp
  from div_mod_decompose [OF this buf] fs
  have dm: "length (flushed s1) = length (results_of (take k ts)) div BATCH_SIZE"
    "length (results s1) = length (results_of (take k ts)) mod BATCH_SIZE"
    by simp_all
  have cont: "results s1 = drop (BATCH_SIZE * length (flushed s1)) (results_of (take k ts))"
    using rs lc fs by simp
  from reduce_done_db [OF one]
  have del: "deliver ins (flushed s1) db0 = Inr (db s1)" by (simp add: initial_def)
  from one dm cont del pre show ?thesis by blast
qed

text \<open>
  Claim C5, amended: the buffer \<open>results\<close> holds one result per finished task, the list
  of the records of this task, and its length counts results, not records. In every run
  of \<open>make_requests\<close> that returns:
  (1) the arguments of the calls of \<open>insert_into\<close>, in order, are the flattened consecutive
  batches of \<open>BATCH_SIZE = 10000\<close> results, followed by the flattened rest when there is
  one, and the storage that the run leaves is the storage after these calls;
  (2) after any number \<open>k\<close> of handled tasks the loop has flushed exactly as many times as
  the number of buffered results has reached \<open>BATCH_SIZE\<close>, that is (results so far)
  \<open>div BATCH_SIZE\<close> times; these flushes are the first flushes of the run, the storage is the
  storage after these calls of \<open>insert_into\<close>, and the buffer holds the results appended
  since the last flush, (results so far) \<open>mod BATCH_SIZE\<close> of them, so each flush cleared it;
  (3) the run makes one more flush at the end exactly when the buffer then holds a
  result, none when it holds no result.
\<close>

theorem flush_at_threshold_and_at_end:
  assumes ret: "make_requests coro parameters concurrency_limit table_handler kw order db0
                  = Return ((n, failed_items), db', batches)"
  shows "batches = map concat (batches_of BATCH_SIZE
                     (results_of (finished_tasks coro kw parameters order)))
    \<and> deliver table_handler batches db0 = Inr db'
    \<and> (\<forall>k\<le>length order. \<exists>s.
          reduce_done table_handler (take k (finished_tasks coro kw parameters order)) (initial db0)
            = Inr s
          \<and> length (flushed s)
              = length (results_of (take k (finished_tasks coro kw parameters order)))
                  div BATCH_SIZE
          \<and> length (results s)
              = length (results_of (take k (finished_tasks coro kw parameters order)))
                  mod BATCH_SIZE
          \<and> results s
              = drop (BATCH_SIZE * length (flushed s))
                  (results_of (take k (finished_tasks coro kw parameters order)))
          \<and> flushed s = take (length (flushed s)) batches
          \<and> deliver table_handler (flushed s) db0 = Inr (db s))
    \<and> length batches
        = length (results_of (finished_tasks coro kw parameters order)) div BATCH_SIZE
          + (if length (results_of (finished_tasks coro kw parameters order)) mod BATCH_SIZE = 0
             then 0 else 1)"
proof -
  let ?ts = "finished_tasks coro kw parameters order"
  from make_requests_Return [OF ret] obtain s where
    loop: "reduce_done table_handler ?ts (initial db0) = Inr s" and
    bs: "batches = flushed s @ (if results s = [] then [] else [concat (results s)])"
    by blast
  have len: "length ?ts = length order" by (simp add: finished_tasks_def)
  have a: "batches = map concat (batches_of BATCH_SIZE (results_of ?ts))"
    by (rule make_requests_summary(3) [OF ret])
  have d: "deliver table_handler batches db0 = Inr db'"
    by (rule make_requests_Return_db [OF ret])
  have b: "\<exists>s1. reduce_done table_handler (take k ?ts) (initial db0) = Inr s1
          \<and> length (flushed s1) = length (results_of (take k ?ts)) div BATCH_SIZE
          \<and> length (results s1) = length (results_of (take k ?ts)) mod BATCH_SIZE
          \<and> results s1 = drop (BATCH_SIZE * length (flushed s1)) (results_of (take k ?ts))
          \<and> flushed s1 = take (length (flushed s1)) batches
          \<and> deliver table_handler (flushed s1) db0 = Inr (db s1)" if "k \<le> length order" for k
  proof -
    from that len have "k \<le> length ?ts" by simp
    from loop_prefix [OF loop this] obtain s1 where
      s1: "reduce_done table_handler (take k ?ts) (initial db0) = Inr s1"
        "length (flushed s1) = length (results_of (take k ?ts)) div BATCH_SIZE"
        "length (results s1) = length (results_of (take k ?ts)) mod BATCH_SIZE"
        "results s1 = drop (BATCH_SIZE * length (flushed s1)) (results_of (take k ?ts))"
        "deliver table_handler (flushed s1) db0 = Inr (db s1)"
        and "\<exists>rest. flushed s = flushed s1 @ rest"
      by blast
    then obtain rest where "flushed s = flushed s1 @ rest" by blast
    then have "flushed s1 = take (length (flushed s1)) batches"
      using bs by simp
    with s1 show ?thesis by blast
  qed
  from loop_prefix [OF loop order_refl] loop
  have "length (flushed s) = length (results_of ?ts) div BATCH_SIZE"
    and "length (results s) = length (results_of ?ts) mod BATCH_SIZE"
    by auto
  then have c: "length batches = length (results_of ?ts) div BATCH_SIZE
          + (if length (results_of ?ts) mod BATCH_SIZE = 0 then 0 else 1)"
    using bs by (cases "results s = []") (auto simp flip: length_greater_0_conv)
  from a b c d show ?thesis by blast
qed

text \<open>
  Claim C5, read with a buffer of records (the specification's batch is a sequence of
  records), fails in both directions. A task that returns 12000 records leaves a buffer of
  12000 records, more than the threshold, and the loop makes no flush: the only flush of
  the run is the final one, with all 12000 records. And a run whose only task returns no
  record ends with a buffer of zero records, and still makes a final flush, a call of
  \<open>insert_into\<close> with the empty list.
\<close>

theorem flush_counts_results_not_records:
  "reduce_done append_insert_into
       [Inr (replicate 12000 ''r'') :: string retry_error + string list] (initial [])
     = Inr \<lparr>results = [replicate 12000 ''r''], failed = [], succeeded = 0, db = [],
            flushed = []\<rparr>
   \<and> BATCH_SIZE \<le> length (concat [replicate 12000 ''r''])
   \<and> make_requests (\<lambda>i p a. Returns (replicate 12000 ''r'')) [''item0''] 1 append_insert_into
           \<lparr>kw_max_retries = 5, kw_backoff_factor = 1\<rparr> [0] []
       = Return ((1, []), replicate 12000 ''r'', [replicate 12000 ''r''])
   \<and> make_requests (\<lambda>i p a. Returns ([] :: string list)) [''item0''] 1 append_insert_into
           \<lparr>kw_max_retries = 5, kw_backoff_factor = 1\<rparr> [0] []
       = Return ((1, []), [], [[]])"
  by (simp add: run_simps append_insert_into_def)

theorem flush_at_threshold_and_at_end_witness:
  "make_requests (\<lambda>i p a. if i = 1 then Raises else Returns [''r'' @ p])
           [''0'', ''1'', ''2''] 3 append_insert_into
           \<lparr>kw_max_retries = 2, kw_backoff_factor = 1\<rparr> [2, 0, 1] []
      = Return ((2, [''1'']), [''r2'', ''r0''], [[''r2'', ''r0'']])
   \<and> [[''r2'', ''r0'']] = map concat (batches_of BATCH_SIZE (results_of (finished_tasks
         (\<lambda>i p a. if i = 1 then Raises else Returns [''r'' @ p])
         \<lparr>kw_max_retries = 2, kw_backoff_factor = 1\<rparr> [''0'', ''1'', ''2''] [2, 0, 1])))
   \<and> deliver append_insert_into [[''r2'', ''r0'']] [] = (Inr [''r2'', ''r0''] :: unit + string list)
   \<and> make_requests (\<lambda>i p a. (Raises :: string list attempt))
           [''0'', ''1''] 3 append_insert_into
           \<lparr>kw_max_retries = 2, kw_backoff_factor = 1\<rparr> [1, 0] []
      = Return ((0, [''1'', ''0'']), [], [])
   \<and> [] = map concat (batches_of BATCH_SIZE (results_of (finished_tasks
         (\<lambda>i p a. (Raises :: string list attempt))
         \<lparr>kw_max_retries = 2, kw_backoff_factor = 1\<rparr> [''0'', ''1''] [1, 0])))"
proof -
  have a: "make_requests (\<lambda>i p a. if i = 1 then Raises else Returns [''r'' @ p])
           [''0'', ''1'', ''2''] 3 append_insert_into
           \<lparr>kw_max_retries = 2, kw_backoff_factor = 1\<rparr> [2, 0, 1] []
      = Return ((2, [''1'']), [''r2'', ''r0''], [[''r2'', ''r0'']])"
    by (simp add: run_simps append_insert_into_def)
  have b: "make_requests (\<lambda>i p a. (Raises :: string list attempt))
           [''0'', ''1''] 3 append_insert_into
           \<lparr>kw_max_retries = 2, kw_backoff_factor = 1\<rparr> [1, 0] []
      = Return ((0, [''1'', ''0'']), [], [])"
    by (simp add: run_simps append_insert_into_def)
  from flush_at_threshold_and_at_end [OF a]
  have c: "[[''r2'', ''r0'']] = map concat (batches_of BATCH_SIZE (results_of (finished_tasks
         (\<lambda>i p a. if i = 1 then Raises else Returns [''r'' @ p])
         \<lparr>kw_max_retries = 2, kw_backoff_factor = 1\<rparr> [''0'', ''1'', ''2''] [2, 0, 1])))"
    and d: "deliver append_insert_into [[''r2'', ''r0'']] []
              = (Inr [''r2'', ''r0''] :: unit + string list)"
    by blast+
  from flush_at_threshold_and_at_end [OF b]
  have e: "[] = map concat (batches_of BATCH_SIZE (results_of (finished_tasks
         (\<lambda>i p a. (Raises :: string list attempt))
         \<lparr>kw_max_retries = 2, kw_backoff_factor = 1\<rparr> [''0'', ''1''] [1, 0])))"
    by blast
  from a b c d e show ?thesis by blast
qed

subsection \<open>Storage\<close>

text \<open>
  A \<open>NULL\<close> key in a rowid table: the row gets the largest rowid plus one; when the table
  holds the largest rowid \<open>2^63 - 1\<close>, the row is stored under the unused rowid that the
  random search finds, and the statement fails only when the search finds none.
\<close>

lemma replace_row_largest_rowid:
  "replace_row (\<lambda>used. Some 5) CATEGORIES_TABLE
       [SNull, SText ''w'', SText ''c'', SText ''s'', SText ''u'']
       [[SInteger (2 ^ 63 - 1), SText ''m'', SText ''c'', SText ''s'', SText ''v'']]
     = Inr [[SInteger 5, SText ''w'', SText ''c'', SText ''s'', SText ''u''],
            [SInteger (2 ^ 63 - 1), SText ''m'', SText ''c'', SText ''s'', SText ''v'']]
   \<and> replace_row gives_up CATEGORIES_TABLE
       [SNull, SText ''w'', SText ''c'', SText ''s'', SText ''u'']
       [[SInteger (2 ^ 63 - 1), SText ''m'', SText ''c'', SText ''s'', SText ''v'']]
     = Inl RowidsExhausted
   \<and> replace_row gives_up CATEGORIES_TABLE
       [SNull, SText ''w'', SText ''c'', SText ''s'', SText ''u'']
       [[SInteger 7, SText ''m'', SText ''c'', SText ''s'', SText ''v'']]
     = Inr [[SInteger 7, SText ''m'', SText ''c'', SText ''s'', SText ''v''],
            [SInteger 8, SText ''w'', SText ''c'', SText ''s'', SText ''u'']]"
  by (simp add: replace_row_def rowid_alias_def CATEGORIES_TABLE_def gives_up_def Let_def)

lemma executemany_committed:
  "executemany coerce draw sch ps conn = (conn', err) \<Longrightarrow> committed conn' = committed conn"
proof (induction ps arbitrary: conn)
  case Nil
  then show ?case by simp
next
  case (Cons p ps)
  show ?case
  proof (cases "execute_insert_or_replace coerce draw sch p (working conn)")
    case (Inl e)
    with Cons.prems show ?thesis by simp
  next
    case (Inr t)
    with Cons.prems have "executemany coerce draw sch ps (conn\<lparr>working := t\<rparr>) = (conn', err)"
      by simp
    from Cons.IH [OF this] show ?thesis by simp
  qed
qed

lemma executemany_ok:
  "executemany coerce draw sch ps conn = (conn', None) \<Longrightarrow>
   \<exists>rows. stored_rows coerce sch ps = Inr rows
     \<and> replace_rows draw sch rows (working conn) = Inr (working conn')"
proof (induction ps arbitrary: conn)
  case Nil
  then show ?case by simp
next
  case (Cons p ps)
  show ?case
  proof (cases "execute_insert_or_replace coerce draw sch p (working conn)")
    case (Inl e)
    with Cons.prems show ?thesis by simp
  next
    case (Inr t)
    then obtain r where r: "stored_row coerce sch p = Inr r"
      and t: "replace_row draw sch r (working conn) = Inr t"
      by (auto simp: execute_insert_or_replace_def split: sum.splits)
    from Inr Cons.prems have "executemany coerce draw sch ps (conn\<lparr>working := t\<rparr>) = (conn', None)"
      by simp
    from Cons.IH [OF this] obtain rows where
      "stored_rows coerce sch ps = Inr rows" "replace_rows draw sch rows t = Inr (working conn')"
      by auto
    with r t show ?thesis by simp
  qed
qed

lemma executemany_short_record:
  "\<exists>p \<in> set ps. length p \<noteq> length (columns sch) \<Longrightarrow>
   \<exists>e. snd (executemany coerce draw sch ps conn) = Some e"
proof (induction ps arbitrary: conn)
  case Nil
  then show ?case by simp
next
  case (Cons p ps)
  show ?case
  proof (cases "execute_insert_or_replace coerce draw sch p (working conn)")
    case (Inl e)
    then show ?thesis by simp
  next
    case (Inr t)
    then have "length p = length (columns sch)"
      by (auto simp: execute_insert_or_replace_def stored_row_def split: if_splits)
    with Cons.prems have "\<exists>p \<in> set ps. length p \<noteq> length (columns sch)" by simp
    from Cons.IH [OF this] Inr show ?thesis by simp
  qed
qed

lemma executemany_incorrect_bindings:
  "snd (executemany coerce draw sch ps conn) = Some IncorrectBindings \<Longrightarrow>
   \<exists>p \<in> set ps. length p \<noteq> length (columns sch)"
proof (induction ps arbitrary: conn)
  case Nil
  then show ?case by simp
next
  case (Cons p ps)
  show ?case
  proof (cases "execute_insert_or_replace coerce draw sch p (working conn)")
    case (Inl e)
    with Cons.prems have e: "e = IncorrectBindings" by simp
    have "length p \<noteq> length (columns sch)"
    proof
      assume len: "length p = length (columns sch)"
      show False
      proof (cases "bind_values p")
        case (Inl e')
        have "e' \<noteq> IncorrectBindings" using Inl
        proof (induction p arbitrary: e')
          case Nil
          then show ?case by simp
        next
          case (Cons v vs)
          then show ?case
            by (cases v) (auto split: sum.splits if_splits)
        qed
        with Inl \<open>execute_insert_or_replace coerce draw sch p (working conn) = Inl e\<close> e len
        show False by (simp add: execute_insert_or_replace_def stored_row_def)
      next
        case (Inr vals)
        with \<open>execute_insert_or_replace coerce draw sch p (working conn) = Inl e\<close> e len
        show False
          by (auto simp: execute_insert_or_replace_def stored_row_def replace_row_def Let_def
              split: if_splits sqlval.splits option.splits)
      qed
    qed
    then show ?thesis by simp
  next
    case (Inr t)
    with Cons.prems
    have "snd (executemany coerce draw sch ps (conn\<lparr>working := t\<rparr>)) = Some IncorrectBindings"
      by simp
    from Cons.IH [OF this] show ?thesis by simp
  qed
qed

text \<open>
  Claim C8, amended: \<open>insert_into(records)\<close> is all-or-nothing per call: either it returns
  and every record has been stored, in order, or it raises and the table is as before
  the call. It raises whenever a record has a number of values other than the number of
  columns, and nothing is stored then. The number of values is all that is compared:
  the error for a wrong number of values arises from nothing else, and field names are
  not looked at, a call depends on the values of the records only, which go to the
  columns by position.
\<close>

theorem insert_into_all_or_nothing:
  "(case insert_into coerce draw sch data tbl of
      (tbl', None) \<Rightarrow>
        (\<exists>rows. stored_rows coerce sch (map (map snd) data) = Inr rows
           \<and> replace_rows draw sch rows tbl = Inr tbl')
    | (tbl', Some e) \<Rightarrow> tbl' = tbl)
   \<and> ((\<exists>r \<in> set data. length r \<noteq> length (columns sch)) \<longrightarrow>
        (\<exists>e. insert_into coerce draw sch data tbl = (tbl, Some e)))
   \<and> (snd (insert_into coerce draw sch data tbl) = Some IncorrectBindings \<longrightarrow>
        (\<exists>r \<in> set data. length r \<noteq> length (columns sch)))
   \<and> (map (map snd) data' = map (map snd) data \<longrightarrow>
        insert_into coerce draw sch data' tbl = insert_into coerce draw sch data tbl)"
proof -
  let ?ps = "map (map snd) data"
  obtain conn err where ex: "executemany coerce draw sch ?ps (connect tbl) = (conn, err)"
    by (cases "executemany coerce draw sch ?ps (connect tbl)") auto
  have com: "committed conn = tbl"
    using executemany_committed [OF ex] by (simp add: connect_def)
  have a: "case insert_into coerce draw sch data tbl of
      (tbl', None) \<Rightarrow>
        (\<exists>rows. stored_rows coerce sch ?ps = Inr rows \<and> replace_rows draw sch rows tbl = Inr tbl')
    | (tbl', Some e) \<Rightarrow> tbl' = tbl"
  proof (cases err)
    case None
    with ex executemany_ok [where coerce = coerce and draw = draw and sch = sch and ps = ?ps
        and conn = "connect tbl" and conn' = conn]
    show ?thesis by (simp add: insert_into_def commit_def connect_def)
  next
    case (Some e)
    with ex com show ?thesis by (simp add: insert_into_def rollback_def)
  qed
  have b: "\<exists>e. insert_into coerce draw sch data tbl = (tbl, Some e)"
    if "\<exists>r \<in> set data. length r \<noteq> length (columns sch)"
  proof -
    from that have "\<exists>p \<in> set ?ps. length p \<noteq> length (columns sch)" by auto
    from executemany_short_record [OF this, where coerce = coerce and draw = draw
        and conn = "connect tbl"] ex
    obtain e where "err = Some e" by auto
    with ex com show ?thesis by (simp add: insert_into_def rollback_def)
  qed
  have c: "\<exists>r \<in> set data. length r \<noteq> length (columns sch)"
    if "snd (insert_into coerce draw sch data tbl) = Some IncorrectBindings"
  proof -
    from that ex have "snd (executemany coerce draw sch ?ps (connect tbl)) = Some IncorrectBindings"
      by (cases err) (simp_all add: insert_into_def)
    from executemany_incorrect_bindings [OF this] show ?thesis by auto
  qed
  have d: "insert_into coerce draw sch data' tbl = insert_into coerce draw sch data tbl"
    if "map (map snd) data' = map (map snd) data"
    using that by (simp add: insert_into_def)
  from a b c d show ?thesis by blast
qed

lemmas db_simps = insert_into_def connect_def commit_def rollback_def
  execute_insert_or_replace_def stored_row_def replace_row_def rowid_alias_def Let_def
  no_conversion_def

text \<open>
  Claim C8, as stated, fails: a record whose field names are not the declared columns is
  stored without an error when it has the right number of values. The first record is the
  one that \<open>compile_article_data\<close> builds: its last field is \<open>img_urls\<close>, where the table
  \<open>articles_data\<close> declares \<open>images_urls\<close>. The second shares no field name with its table.
\<close>

theorem insert_into_ignores_field_names:
  "\<not> fields_match ARTICLES_DATA_TABLE
       [(''id'', PyInt 1), (''article_url'', PyStr ''u''), (''description'', PyStr ''d''),
        (''colour'', PyStr ''c''), (''tags'', PyStr ''[]''), (''materials'', PyStr ''[]''),
        (''img_urls'', PyStr ''[]'')]
   \<and> insert_into no_conversion gives_up ARTICLES_DATA_TABLE
       [[(''id'', PyInt 1), (''article_url'', PyStr ''u''), (''description'', PyStr ''d''),
         (''colour'', PyStr ''c''), (''tags'', PyStr ''[]''), (''materials'', PyStr ''[]''),
         (''img_urls'', PyStr ''[]'')]] []
     = ([[SInteger 1, SText ''u'', SText ''d'', SText ''c'', SText ''[]'', SText ''[]'',
          SText ''[]'']], None)
   \<and> \<not> fields_match PAGES_URLS_TABLE [(''foo'', PyInt 1), (''bar'', PyStr ''x'')]
   \<and> insert_into no_conversion gives_up PAGES_URLS_TABLE [[(''foo'', PyInt 1), (''bar'', PyStr ''x'')]] []
     = ([[SInteger 1, SText ''x'']], None)"
  by (simp add: db_simps fields_match_def ARTICLES_DATA_TABLE_def PAGES_URLS_TABLE_def)

theorem insert_into_all_or_nothing_witness:
  "insert_into no_conversion gives_up PAGES_URLS_TABLE
       [[(''id'', PyInt 7), (''page_url'', PyStr ''z'')], [(''id'', PyInt 1)]]
       [[SInteger 2, SText ''b'']]
     = ([[SInteger 2, SText ''b'']], Some IncorrectBindings)
   \<and> insert_into no_conversion gives_up PAGES_URLS_TABLE
       [[(''id'', PyInt 7), (''page_url'', PyStr ''z'')], [(''id'', PyInt 2), (''page_url'', PyStr ''b'')]]
       [[SInteger 2, SText ''b'']]
     = ([[SInteger 7, SText ''z''], [SInteger 2, SText ''b'']], None)"
  using insert_into_all_or_nothing [where coerce = no_conversion and draw = gives_up
      and sch = PAGES_URLS_TABLE
      and data = "[[(''id'', PyInt 7), (''page_url'', PyStr ''z'')], [(''id'', PyInt 1)]]"
      and tbl = "[[SInteger 2, SText ''b'']]"]
    insert_into_all_or_nothing [where coerce = no_conversion and draw = gives_up
      and sch = PAGES_URLS_TABLE
      and data = "[[(''id'', PyInt 7), (''page_url'', PyStr ''z'')],
                   [(''id'', PyInt 2), (''page_url'', PyStr ''b'')]]"
      and tbl = "[[SInteger 2, SText ''b'']]"]
  by (simp add: db_simps PAGES_URLS_TABLE_def)

subsection \<open>Storing the same rows twice\<close>

text \<open>Tables with a hidden rowid: the stored table has a normal form.\<close>

lemma upsert_hidden: "\<not> rowid_alias sch \<Longrightarrow>
  upsert sch r t = filter (\<lambda>x. x ! pk sch \<noteq> r ! pk sch) t @ [r]"
  by (simp add: upsert_def)

lemma fold_upsert_hidden_set:
  "\<not> rowid_alias sch \<Longrightarrow> set (fold (upsert sch) rows t) \<subseteq> set t \<union> set rows"
proof (induction rows arbitrary: t rule: rev_induct)
  case Nil
  then show ?case by simp
next
  case (snoc r rows)
  then show ?case by (auto simp: upsert_hidden)
qed

lemma fold_upsert_hidden_nf:
  assumes "\<not> rowid_alias sch"
  shows "fold (upsert sch) rows t
     = filter (\<lambda>x. x ! pk sch \<notin> (\<lambda>r. r ! pk sch) ` set rows) t @ fold (upsert sch) rows []"
proof (induction rows rule: rev_induct)
  case Nil
  then show ?case by simp
next
  case (snoc r rows)
  have step: "upsert sch r X = filter (\<lambda>x. x ! pk sch \<noteq> r ! pk sch) X @ [r]" for X
    by (rule upsert_hidden [OF assms])
  have pred: "filter (\<lambda>x. x ! pk sch \<noteq> r ! pk sch)
        (filter (\<lambda>x. x ! pk sch \<notin> (\<lambda>r. r ! pk sch) ` set rows) t)
      = filter (\<lambda>x. x ! pk sch \<notin> (\<lambda>r. r ! pk sch) ` set (rows @ [r])) t"
    by (auto intro: filter_cong)
  have "fold (upsert sch) (rows @ [r]) t = upsert sch r (fold (upsert sch) rows t)" by simp
  also have "\<dots> = filter (\<lambda>x. x ! pk sch \<noteq> r ! pk sch)
      (filter (\<lambda>x. x ! pk sch \<notin> (\<lambda>r. r ! pk sch) ` set rows) t @ fold (upsert sch) rows [])
      @ [r]"
    by (subst snoc) (rule step)
  also have "\<dots> = filter (\<lambda>x. x ! pk sch \<notin> (\<lambda>r. r ! pk sch) ` set (rows @ [r])) t
      @ upsert sch r (fold (upsert sch) rows [])"
    by (simp only: step filter_append pred append_assoc)
  also have "upsert sch r (fold (upsert sch) rows []) = fold (upsert sch) (rows @ [r]) []"
    by simp
  finally show ?case .
qed

lemma fold_upsert_hidden_twice:
  assumes "\<not> rowid_alias sch"
  shows "fold (upsert sch) rows (fold (upsert sch) rows t) = fold (upsert sch) rows t"
proof -
  let ?new = "\<lambda>x. x ! pk sch \<notin> (\<lambda>r. r ! pk sch) ` set rows"
  have "set (fold (upsert sch) rows []) \<subseteq> set rows"
    using fold_upsert_hidden_set [OF assms, of rows "[]"] by simp
  then have none: "filter ?new (fold (upsert sch) rows []) = []"
    by (auto simp: filter_empty_conv)
  have "fold (upsert sch) rows (fold (upsert sch) rows t)
      = filter ?new (fold (upsert sch) rows t) @ fold (upsert sch) rows []"
    by (rule fold_upsert_hidden_nf [OF assms])
  also have "fold (upsert sch) rows t = filter ?new t @ fold (upsert sch) rows []"
    by (rule fold_upsert_hidden_nf [OF assms])
  finally show ?thesis
    using none fold_upsert_hidden_nf [OF assms, of rows t] by simp
qed

text \<open>Rowid tables: storing a row is idempotent, the later row with the same rowid wins,
  and rows with different rowids can be stored in either order.\<close>

lemma upsert_rowid: "rowid_alias sch \<Longrightarrow>
  upsert sch r t = insort_key (rowid_of (pk sch)) r
     (filter (\<lambda>x. rowid_of (pk sch) x \<noteq> rowid_of (pk sch) r) t)"
  by (simp add: upsert_def)

lemma upsert_rowid_same:
  assumes "rowid_alias sch" "rowid_of (pk sch) r = rowid_of (pk sch) r'"
  shows "upsert sch r (upsert sch r' t) = upsert sch r t"
  using assms by (simp add: upsert_rowid filter_insort_triv)

lemma upsert_rowid_sorted:
  assumes "rowid_alias sch" "sorted (map (rowid_of (pk sch)) t)"
  shows "sorted (map (rowid_of (pk sch)) (upsert sch r t))"
  using assms by (simp add: upsert_rowid sorted_insort_key sorted_filter)

lemma upsert_rowid_comm:
  assumes "rowid_alias sch" "sorted (map (rowid_of (pk sch)) t)"
    and "rowid_of (pk sch) r \<noteq> rowid_of (pk sch) r'"
  shows "upsert sch r (upsert sch r' t) = upsert sch r' (upsert sch r t)"
proof -
  let ?f = "rowid_of (pk sch)"
  let ?P = "\<lambda>x. ?f x \<noteq> ?f r" and ?Q = "\<lambda>x. ?f x \<noteq> ?f r'"
  have "upsert sch r (upsert sch r' t)
      = insort_key ?f r (insort_key ?f r' (filter ?P (filter ?Q t)))"
    using assms by (simp add: upsert_rowid filter_insort sorted_filter)
  also have "\<dots> = insort_key ?f r' (insort_key ?f r (filter ?Q (filter ?P t)))"
    using assms(3) by (simp add: insort_key_left_comm conj_commute)
  also have "\<dots> = upsert sch r' (upsert sch r t)"
    using assms by (simp add: upsert_rowid filter_insort sorted_filter)
  finally show ?thesis .
qed

lemma fold_upsert_rowid_sorted:
  assumes "rowid_alias sch" "sorted (map (rowid_of (pk sch)) t)"
  shows "sorted (map (rowid_of (pk sch)) (fold (upsert sch) rows t))"
  using assms(2)
  by (induction rows arbitrary: t) (simp_all add: upsert_rowid_sorted [OF assms(1)])

lemma fold_upsert_rowid_absorb:
  assumes a: "rowid_alias sch" and s: "sorted (map (rowid_of (pk sch)) t)"
  shows "upsert sch r (fold (upsert sch) rows (upsert sch r t))
       = upsert sch r (fold (upsert sch) rows t)"
proof (induction rows rule: rev_induct)
  case Nil
  then show ?case by (simp add: upsert_rowid_same [OF a])
next
  case (snoc x rows)
  let ?f = "rowid_of (pk sch)"
  let ?A = "fold (upsert sch) rows (upsert sch r t)" and ?B = "fold (upsert sch) rows t"
  have sA: "sorted (map ?f ?A)"
    by (rule fold_upsert_rowid_sorted [OF a upsert_rowid_sorted [OF a s]])
  have sB: "sorted (map ?f ?B)" by (rule fold_upsert_rowid_sorted [OF a s])
  show ?case
  proof (cases "?f r = ?f x")
    case True
    then show ?thesis using snoc by (simp add: upsert_rowid_same [OF a])
  next
    case False
    have "upsert sch r (upsert sch x ?A) = upsert sch x (upsert sch r ?A)"
      by (rule upsert_rowid_comm [OF a sA False])
    also have "\<dots> = upsert sch x (upsert sch r ?B)" using snoc by simp
    also have "\<dots> = upsert sch r (upsert sch x ?B)"
      by (rule upsert_rowid_comm [OF a sB False, symmetric])
    finally show ?thesis by simp
  qed
qed

lemma fold_upsert_rowid_twice:
  assumes a: "rowid_alias sch" and s: "sorted (map (rowid_of (pk sch)) t)"
  shows "fold (upsert sch) rows (fold (upsert sch) rows t) = fold (upsert sch) rows t"
proof (induction rows rule: rev_induct)
  case Nil
  then show ?case by simp
next
  case (snoc x rows)
  have "fold (upsert sch) (rows @ [x]) (fold (upsert sch) (rows @ [x]) t)
      = upsert sch x (fold (upsert sch) rows (upsert sch x (fold (upsert sch) rows t)))"
    by simp
  also have "\<dots> = upsert sch x (fold (upsert sch) rows (fold (upsert sch) rows t))"
    by (rule fold_upsert_rowid_absorb [OF a fold_upsert_rowid_sorted [OF a s]])
  also have "\<dots> = upsert sch x (fold (upsert sch) rows t)" using snoc by simp
  finally show ?case by simp
qed

lemma fold_upsert_twice:
  "table_ok sch t \<Longrightarrow>
   fold (upsert sch) rows (fold (upsert sch) rows t) = fold (upsert sch) rows t"
  by (cases "rowid_alias sch")
    (simp_all add: fold_upsert_rowid_twice fold_upsert_hidden_twice table_ok_def)

lemma fold_upsert_table_ok:
  "table_ok sch t \<Longrightarrow> table_ok sch (fold (upsert sch) rows t)"
  by (simp add: table_ok_def fold_upsert_rowid_sorted)

lemma replace_row_nonnull:
  "r ! pk sch \<noteq> SNull \<Longrightarrow>
   replace_row draw sch r t =
     (if rowid_alias sch \<and> (\<exists>s. r ! pk sch = SText s) then Inl DatatypeMismatch
      else Inr (upsert sch r t))"
  by (cases "r ! pk sch") (auto simp: replace_row_def upsert_def Let_def intro: filter_cong)

lemma executemany_error_independent:
  assumes "\<forall>p \<in> set ps. \<forall>r. stored_row coerce sch p = Inr r \<longrightarrow> r ! pk sch \<noteq> SNull"
  shows "snd (executemany coerce draw sch ps conn) = snd (executemany coerce draw sch ps connb)"
  using assms
proof (induction ps arbitrary: conn connb)
  case Nil
  then show ?case by simp
next
  case (Cons p ps)
  show ?case
  proof (cases "stored_row coerce sch p")
    case (Inl e)
    then show ?thesis by (simp add: execute_insert_or_replace_def)
  next
    case (Inr r)
    with Cons.prems have nn: "r ! pk sch \<noteq> SNull" by simp
    show ?thesis
    proof (cases "rowid_alias sch \<and> (\<exists>s. r ! pk sch = SText s)")
      case True
      with nn have rr: "replace_row draw sch r t = Inl DatatypeMismatch" for t
        by (simp add: replace_row_nonnull)
      with Inr show ?thesis by (simp add: execute_insert_or_replace_def)
    next
      case False
      with nn have rr: "replace_row draw sch r t = Inr (upsert sch r t)" for t
        by (simp add: replace_row_nonnull)
      have "snd (executemany coerce draw sch ps (conn\<lparr>working := upsert sch r (working conn)\<rparr>))
          = snd (executemany coerce draw sch ps (connb\<lparr>working := upsert sch r (working connb)\<rparr>))"
        using Cons.prems by (intro Cons.IH) simp
      with Inr rr show ?thesis by (simp add: execute_insert_or_replace_def)
    qed
  qed
qed

lemma executemany_ok_fold:
  assumes "\<forall>p \<in> set ps. \<forall>r. stored_row coerce sch p = Inr r \<longrightarrow> r ! pk sch \<noteq> SNull"
    and "executemany coerce draw sch ps conn = (conn', None)"
  shows "\<exists>rows. stored_rows coerce sch ps = Inr rows
       \<and> working conn' = fold (upsert sch) rows (working conn)"
  using assms
proof (induction ps arbitrary: conn)
  case Nil
  then show ?case by simp
next
  case (Cons p ps)
  show ?case
  proof (cases "stored_row coerce sch p")
    case (Inl e)
    with Cons.prems(2) show ?thesis by (simp add: execute_insert_or_replace_def)
  next
    case (Inr r)
    with Cons.prems have nn: "r ! pk sch \<noteq> SNull" by simp
    show ?thesis
    proof (cases "rowid_alias sch \<and> (\<exists>s. r ! pk sch = SText s)")
      case True
      with nn have rr: "replace_row draw sch r t = Inl DatatypeMismatch" for t
        by (simp add: replace_row_nonnull)
      with Inr Cons.prems(2) show ?thesis by (simp add: execute_insert_or_replace_def)
    next
      case False
      with nn have rr: "replace_row draw sch r t = Inr (upsert sch r t)" for t
        by (simp add: replace_row_nonnull)
      with Inr Cons.prems(2)
      have "executemany coerce draw sch ps (conn\<lparr>working := upsert sch r (working conn)\<rparr>)
              = (conn', None)"
        by (simp add: execute_insert_or_replace_def)
      with Cons.prems(1) Cons.IH [of "conn\<lparr>working := upsert sch r (working conn)\<rparr>"]
      obtain rows where "stored_rows coerce sch ps = Inr rows"
        "working conn' = fold (upsert sch) rows (upsert sch r (working conn))"
        by auto
      with Inr show ?thesis by simp
    qed
  qed
qed

lemma is_integer_conv: "is_integer v = (\<exists>n. v = SInteger n)"
  by (cases v) simp_all

lemma last_filter_snoc:
  "last (filter P (xs @ [x])) = (if P x then x else last (filter P xs))"
  by simp

lemma upsert_key_same:
  assumes ok: "table_ok sch t"
  shows "filter (\<lambda>x. x ! pk sch = r ! pk sch) (upsert sch r t) = [r]"
proof (cases "rowid_alias sch")
  case False
  have "filter (\<lambda>x. x ! pk sch = r ! pk sch) (filter (\<lambda>x. x ! pk sch \<noteq> r ! pk sch) t) = []"
    by (simp add: filter_empty_conv)
  with False show ?thesis by (simp add: upsert_hidden)
next
  case True
  let ?f = "rowid_of (pk sch)"
  from ok True have s: "sorted (map ?f (filter (\<lambda>x. ?f x \<noteq> ?f r) t))"
    by (simp add: table_ok_def sorted_filter)
  have e: "filter (\<lambda>x. x ! pk sch = r ! pk sch) (filter (\<lambda>x. ?f x \<noteq> ?f r) t) = []"
    by (auto simp: filter_empty_conv)
  have "filter (\<lambda>x. x ! pk sch = r ! pk sch) (upsert sch r t)
      = insort_key ?f r (filter (\<lambda>x. x ! pk sch = r ! pk sch) (filter (\<lambda>x. ?f x \<noteq> ?f r) t))"
    unfolding upsert_rowid [OF True] by (rule filter_insort [OF s]) simp
  with e show ?thesis by simp
qed

lemma upsert_key_other:
  assumes "q \<noteq> r ! pk sch"
    and "rowid_alias sch \<Longrightarrow> is_integer q \<and> is_integer (r ! pk sch)"
  shows "filter (\<lambda>x. x ! pk sch = q) (upsert sch r t) = filter (\<lambda>x. x ! pk sch = q) t"
proof (cases "rowid_alias sch")
  case False
  with assms(1) show ?thesis by (auto simp: upsert_hidden intro: filter_cong)
next
  case True
  let ?f = "rowid_of (pk sch)"
  from assms True obtain n m where nm: "q = SInteger n" "r ! pk sch = SInteger m" "n \<noteq> m"
    by (auto simp: is_integer_conv)
  have "filter (\<lambda>x. x ! pk sch = q) (upsert sch r t)
      = filter (\<lambda>x. x ! pk sch = q) (filter (\<lambda>x. ?f x \<noteq> ?f r) t)"
    unfolding upsert_rowid [OF True] using assms(1) by (simp add: filter_insort_triv)
  also have "\<dots> = filter (\<lambda>x. x ! pk sch = q) t"
    using nm by (auto intro: filter_cong)
  finally show ?thesis .
qed

lemma fold_upsert_one_row:
  assumes ok: "table_ok sch t"
    and keys: "rowid_alias sch \<Longrightarrow> \<forall>r \<in> set rows. is_integer (r ! pk sch)"
    and r: "r \<in> set rows"
  shows "filter (\<lambda>x. x ! pk sch = r ! pk sch) (fold (upsert sch) rows t)
       = [last (filter (\<lambda>y. y ! pk sch = r ! pk sch) rows)]"
  using keys r
proof (induction rows rule: rev_induct)
  case Nil
  then show ?case by simp
next
  case (snoc x rows)
  let ?T = "fold (upsert sch) rows t"
  have okT: "table_ok sch ?T" by (rule fold_upsert_table_ok [OF ok])
  have f: "fold (upsert sch) (rows @ [x]) t = upsert sch x ?T" by simp
  show ?case
  proof (cases "r ! pk sch = x ! pk sch")
    case True
    then show ?thesis
      unfolding f using upsert_key_same [OF okT, of x] by simp
  next
    case False
    with snoc.prems(2) have rin: "r \<in> set rows" by auto
    have ints: "rowid_alias sch \<Longrightarrow> is_integer (r ! pk sch) \<and> is_integer (x ! pk sch)"
      using snoc.prems(1) rin by simp
    have "filter (\<lambda>y. y ! pk sch = r ! pk sch) (upsert sch x ?T)
        = filter (\<lambda>y. y ! pk sch = r ! pk sch) ?T"
      by (rule upsert_key_other [OF False ints])
    also have "\<dots> = [last (filter (\<lambda>y. y ! pk sch = r ! pk sch) rows)]"
      using snoc.IH snoc.prems(1) rin by simp
    finally show ?thesis unfolding f using False by simp
  qed
qed

lemma fold_upsert_frame:
  assumes ok: "table_ok sch t"
    and keys: "rowid_alias sch \<Longrightarrow> \<forall>r \<in> set rows. is_integer (r ! pk sch)"
    and ik: "integer_keys sch t"
  shows "filter (\<lambda>x. x ! pk sch \<notin> (\<lambda>r. r ! pk sch) ` set rows) (fold (upsert sch) rows t)
       = filter (\<lambda>x. x ! pk sch \<notin> (\<lambda>r. r ! pk sch) ` set rows) t"
proof (cases "rowid_alias sch")
  case False
  let ?new = "\<lambda>x. x ! pk sch \<notin> (\<lambda>r. r ! pk sch) ` set rows"
  have "set (fold (upsert sch) rows []) \<subseteq> set rows"
    using fold_upsert_hidden_set [OF False, of rows "[]"] by simp
  then have none: "filter ?new (fold (upsert sch) rows []) = []"
    by (auto simp: filter_empty_conv)
  have "filter ?new (fold (upsert sch) rows t)
      = filter ?new (filter ?new t @ fold (upsert sch) rows [])"
    using fold_upsert_hidden_nf [OF False, of rows t] by simp
  with none show ?thesis by simp
next
  case True
  let ?f = "rowid_of (pk sch)"
  from ik True have it: "\<forall>x \<in> set t. is_integer (x ! pk sch)"
    by (simp add: integer_keys_def list_all_iff)
  show ?thesis
    using keys [OF True]
  proof (induction rows rule: rev_induct)
    case Nil
    then show ?case by simp
  next
    case (snoc r rows)
    let ?T = "fold (upsert sch) rows t"
    let ?N = "\<lambda>x. x ! pk sch \<notin> (\<lambda>r. r ! pk sch) ` set rows"
    let ?N' = "\<lambda>x. x ! pk sch \<notin> (\<lambda>r. r ! pk sch) ` set (rows @ [r])"
    let ?G = "\<lambda>x. ?f x \<noteq> ?f r"
    from snoc.prems obtain n where n: "r ! pk sch = SInteger n"
      by (auto simp: is_integer_conv)
    have IH: "filter ?N ?T = filter ?N t" using snoc by simp
    have "filter ?N' (fold (upsert sch) (rows @ [r]) t) = filter ?N' (upsert sch r ?T)" by simp
    also have "\<dots> = filter ?N' (filter ?G ?T)"
      unfolding upsert_rowid [OF True] by (simp add: filter_insort_triv)
    also have "\<dots> = filter (\<lambda>x. ?G x \<and> x ! pk sch \<noteq> r ! pk sch) (filter ?N ?T)"
      by (auto intro: filter_cong)
    also have "\<dots> = filter (\<lambda>x. ?G x \<and> x ! pk sch \<noteq> r ! pk sch) (filter ?N t)"
      by (simp only: IH)
    also have "\<dots> = filter ?N' t"
      using it n by (auto simp: is_integer_conv intro!: filter_cong)
    finally show ?case .
  qed
qed

lemma executemany_ok_keys:
  assumes "\<forall>p \<in> set ps. \<forall>r. stored_row coerce sch p = Inr r \<longrightarrow> r ! pk sch \<noteq> SNull"
    and "executemany coerce draw sch ps conn = (conn', None)"
    and "stored_rows coerce sch ps = Inr rows"
    and "rowid_alias sch"
  shows "\<forall>r \<in> set rows. is_integer (r ! pk sch)"
  using assms(1-3)
proof (induction ps arbitrary: conn rows)
  case Nil
  then show ?case by simp
next
  case (Cons p ps)
  from Cons.prems(3) obtain r rs where
    r: "stored_row coerce sch p = Inr r" and rs: "stored_rows coerce sch ps = Inr rs"
    and rows: "rows = r # rs"
    by (auto split: sum.splits)
  with Cons.prems(1) have nn: "r ! pk sch \<noteq> SNull" by simp
  show ?case
  proof (cases "\<exists>s. r ! pk sch = SText s")
    case True
    with nn assms(4) have rr: "replace_row draw sch r t = Inl DatatypeMismatch" for t
      by (simp add: replace_row_nonnull)
    with r Cons.prems(2) show ?thesis by (simp add: execute_insert_or_replace_def)
  next
    case False
    with nn have int: "is_integer (r ! pk sch)" by (cases "r ! pk sch") simp_all
    from False nn have rr: "replace_row draw sch r t = Inr (upsert sch r t)" for t
      by (simp add: replace_row_nonnull)
    with r Cons.prems(2)
    have "executemany coerce draw sch ps (conn\<lparr>working := upsert sch r (working conn)\<rparr>)
            = (conn', None)"
      by (simp add: execute_insert_or_replace_def)
    from Cons.IH [OF _ this rs] Cons.prems(1)
    have "\<forall>r \<in> set rs. is_integer (r ! pk sch)" by simp
    with int rows show ?thesis by simp
  qed
qed


text \<open>
  The implicit claim C10, amended: for every list of records none of which is stored
  with a \<open>NULL\<close> primary key, on every table (a rowid table in rowid order), calling
  \<open>insert_into\<close> with the list a second time leaves the table as the first call left it,
  and the second call raises exactly what the first call raised, nothing if it returned.
  When the call raises, the table is as before the call. When it returns, the table holds,
  for every primary key among the stored rows of the records, exactly one row with this
  key, the row of the last record with this key: a row stored under this key before is
  replaced, and no duplicate is made. The rows of the table with other keys are kept, in
  their order (in a rowid table, whose keys are integers).
\<close>

theorem insert_into_twice:
  assumes ok: "table_ok sch tbl"
    and nonnull: "\<forall>r \<in> set data. \<forall>row.
        stored_row coerce sch (map snd r) = Inr row \<longrightarrow> row ! pk sch \<noteq> SNull"
    and once: "insert_into coerce draw sch data tbl = (tbl1, err)"
  shows "insert_into coerce draw sch data tbl1 = (tbl1, err)
    \<and> (case err of
         Some e \<Rightarrow> tbl1 = tbl
       | None \<Rightarrow>
           (\<exists>rows. stored_rows coerce sch (map (map snd) data) = Inr rows
              \<and> (\<forall>r \<in> set rows.
                    filter (\<lambda>x. x ! pk sch = r ! pk sch) tbl1
                      = [last (filter (\<lambda>y. y ! pk sch = r ! pk sch) rows)])
              \<and> (integer_keys sch tbl \<longrightarrow>
                    filter (\<lambda>x. x ! pk sch \<notin> (\<lambda>r. r ! pk sch) ` set rows) tbl1
                      = filter (\<lambda>x. x ! pk sch \<notin> (\<lambda>r. r ! pk sch) ` set rows) tbl)))"
proof -
  let ?ps = "map (map snd) data"
  have nn: "\<forall>p \<in> set ?ps. \<forall>r. stored_row coerce sch p = Inr r \<longrightarrow> r ! pk sch \<noteq> SNull"
    using nonnull by auto
  obtain c1 e1 where ex1: "executemany coerce draw sch ?ps (connect tbl) = (c1, e1)"
    by (cases "executemany coerce draw sch ?ps (connect tbl)") auto
  obtain c2 e2 where ex2: "executemany coerce draw sch ?ps (connect tbl1) = (c2, e2)"
    by (cases "executemany coerce draw sch ?ps (connect tbl1)") auto
  have same: "e2 = e1"
    using executemany_error_independent [OF nn, where conn = "connect tbl1"
        and connb = "connect tbl" and draw = draw] ex1 ex2
    by simp
  show ?thesis
  proof (cases e1)
    case (Some e)
    have "committed c1 = tbl"
      using executemany_committed [OF ex1] by (simp add: connect_def)
    with Some ex1 once have "tbl1 = tbl" "err = Some e"
      by (simp_all add: insert_into_def rollback_def)
    with once show ?thesis by simp
  next
    case None
    with ex1 once have t1: "tbl1 = working c1" and e: "err = None"
      by (simp_all add: insert_into_def commit_def)
    from ex1 None have ex1': "executemany coerce draw sch ?ps (connect tbl) = (c1, None)" by simp
    from ex2 same None have ex2': "executemany coerce draw sch ?ps (connect tbl1) = (c2, None)"
      by simp
    from executemany_ok_fold [OF nn ex1'] obtain rows where
      rows: "stored_rows coerce sch ?ps = Inr rows" and
      w1: "working c1 = fold (upsert sch) rows tbl"
      by (auto simp: connect_def)
    from executemany_ok_fold [OF nn ex2'] obtain rows' where
      "stored_rows coerce sch ?ps = Inr rows'" and
      w2: "working c2 = fold (upsert sch) rows' tbl1"
      by (auto simp: connect_def)
    with rows have "rows' = rows" by simp
    with w2 t1 w1 have "working c2 = tbl1"
      by (simp add: fold_upsert_twice [OF ok])
    with ex2 same None e have twice: "insert_into coerce draw sch data tbl1 = (tbl1, err)"
      by (simp add: insert_into_def commit_def)
    have keys: "\<forall>r \<in> set rows. is_integer (r ! pk sch)" if "rowid_alias sch"
      by (rule executemany_ok_keys [OF nn ex1' rows that])
    have tbl1: "tbl1 = fold (upsert sch) rows tbl" using t1 w1 by simp
    have one: "filter (\<lambda>x. x ! pk sch = r ! pk sch) tbl1
          = [last (filter (\<lambda>y. y ! pk sch = r ! pk sch) rows)]" if "r \<in> set rows" for r
      unfolding tbl1 by (rule fold_upsert_one_row [OF ok keys that])
    have frame: "filter (\<lambda>x. x ! pk sch \<notin> (\<lambda>r. r ! pk sch) ` set rows) tbl1
          = filter (\<lambda>x. x ! pk sch \<notin> (\<lambda>r. r ! pk sch) ` set rows) tbl"
      if "integer_keys sch tbl"
      unfolding tbl1 by (rule fold_upsert_frame [OF ok keys that])
    from twice e rows one frame show ?thesis by auto
  qed
qed

text \<open>
  Claim C10, as stated, fails for a record whose primary key is \<open>None\<close>. The record is one
  that \<open>compile_article_urls\<close> builds for a page without articles (\<open>"article_url": None\<close>),
  and it has as many values as \<open>articles_urls\<close> has columns. \<open>article_url TEXT PRIMARY KEY\<close>
  admits \<open>NULL\<close>, and a \<open>NULL\<close> key conflicts with no row, so the second call adds a second
  row instead of replacing the first.
\<close>

theorem null_key_rows_duplicate:
  "insert_into no_conversion gives_up ARTICLES_URLS_TABLE
       [[(''id'', PyInt 1), (''page_url'', PyStr ''p''), (''article_url'', PyNone)]] []
     = ([[SInteger 1, SText ''p'', SNull]], None)
   \<and> insert_into no_conversion gives_up ARTICLES_URLS_TABLE
       [[(''id'', PyInt 1), (''page_url'', PyStr ''p''), (''article_url'', PyNone)]]
       [[SInteger 1, SText ''p'', SNull]]
     = ([[SInteger 1, SText ''p'', SNull], [SInteger 1, SText ''p'', SNull]], None)"
  by (simp add: db_simps ARTICLES_URLS_TABLE_def)

theorem insert_into_twice_witness:
  "insert_into no_conversion gives_up PAGES_URLS_TABLE
       [[(''id'', PyInt 1), (''page_url'', PyStr ''a'')],
        [(''id'', PyInt 2), (''page_url'', PyStr ''b'')],
        [(''id'', PyInt 3), (''page_url'', PyStr ''a'')]]
       [[SInteger 9, SText ''b''], [SInteger 7, SText ''z'']]
     = ([[SInteger 7, SText ''z''], [SInteger 2, SText ''b''], [SInteger 3, SText ''a'']], None)
   \<and> insert_into no_conversion gives_up PAGES_URLS_TABLE
       [[(''id'', PyInt 1), (''page_url'', PyStr ''a'')],
        [(''id'', PyInt 2), (''page_url'', PyStr ''b'')],
        [(''id'', PyInt 3), (''page_url'', PyStr ''a'')]]
       [[SInteger 7, SText ''z''], [SInteger 2, SText ''b''], [SInteger 3, SText ''a'']]
     = ([[SInteger 7, SText ''z''], [SInteger 2, SText ''b''], [SInteger 3, SText ''a'']], None)
   \<and> stored_rows no_conversion PAGES_URLS_TABLE
       [[PyInt 1, PyStr ''a''], [PyInt 2, PyStr ''b''], [PyInt 3, PyStr ''a'']]
     = Inr [[SInteger 1, SText ''a''], [SInteger 2, SText ''b''], [SInteger 3, SText ''a'']]
   \<and> integer_keys PAGES_URLS_TABLE [[SInteger 9, SText ''b''], [SInteger 7, SText ''z'']]
   \<and> insert_into no_conversion gives_up CATEGORIES_TABLE
       [[(''id'', PyInt 5), (''gender'', PyStr ''w''), (''category'', PyStr ''c''),
         (''subcategory'', PyStr ''s''), (''base_url'', PyStr ''new'')]]
       [[SInteger 3, SText ''m'', SText ''c'', SText ''s'', SText ''u3''],
        [SInteger 5, SText ''w'', SText ''c'', SText ''s'', SText ''old'']]
     = ([[SInteger 3, SText ''m'', SText ''c'', SText ''s'', SText ''u3''],
         [SInteger 5, SText ''w'', SText ''c'', SText ''s'', SText ''new'']], None)
   \<and> insert_into no_conversion gives_up CATEGORIES_TABLE
       [[(''id'', PyInt 5), (''gender'', PyStr ''w''), (''category'', PyStr ''c''),
         (''subcategory'', PyStr ''s''), (''base_url'', PyStr ''new'')]]
       [[SInteger 3, SText ''m'', SText ''c'', SText ''s'', SText ''u3''],
        [SInteger 5, SText ''w'', SText ''c'', SText ''s'', SText ''new'']]
     = ([[SInteger 3, SText ''m'', SText ''c'', SText ''s'', SText ''u3''],
         [SInteger 5, SText ''w'', SText ''c'', SText ''s'', SText ''new'']], None)
   \<and> integer_keys CATEGORIES_TABLE
       [[SInteger 3, SText ''m'', SText ''c'', SText ''s'', SText ''u3''],
        [SInteger 5, SText ''w'', SText ''c'', SText ''s'', SText ''old'']]"
proof -
  let ?d = "[[(''id'', PyInt 1), (''page_url'', PyStr ''a'')],
        [(''id'', PyInt 2), (''page_url'', PyStr ''b'')],
        [(''id'', PyInt 3), (''page_url'', PyStr ''a'')]]"
  let ?t = "[[SInteger 9, SText ''b''], [SInteger 7, SText ''z'']]"
  let ?c = "[[(''id'', PyInt 5), (''gender'', PyStr ''w''), (''category'', PyStr ''c''),
         (''subcategory'', PyStr ''s''), (''base_url'', PyStr ''new'')]]"
  let ?u = "[[SInteger 3, SText ''m'', SText ''c'', SText ''s'', SText ''u3''],
        [SInteger 5, SText ''w'', SText ''c'', SText ''s'', SText ''old'']]"
  have ok: "table_ok PAGES_URLS_TABLE ?t"
    by (simp add: table_ok_def rowid_alias_def PAGES_URLS_TABLE_def)
  have nn: "\<forall>r \<in> set ?d. \<forall>row.
      stored_row no_conversion PAGES_URLS_TABLE (map snd r) = Inr row
        \<longrightarrow> row ! pk PAGES_URLS_TABLE \<noteq> SNull"
    by (auto simp: stored_row_def no_conversion_def PAGES_URLS_TABLE_def)
  have once: "insert_into no_conversion gives_up PAGES_URLS_TABLE ?d ?t
     = ([[SInteger 7, SText ''z''], [SInteger 2, SText ''b''], [SInteger 3, SText ''a'']], None)"
    by (simp add: db_simps PAGES_URLS_TABLE_def)
  have okc: "table_ok CATEGORIES_TABLE ?u"
    by (simp add: table_ok_def rowid_alias_def CATEGORIES_TABLE_def)
  have nnc: "\<forall>r \<in> set ?c. \<forall>row.
      stored_row no_conversion CATEGORIES_TABLE (map snd r) = Inr row
        \<longrightarrow> row ! pk CATEGORIES_TABLE \<noteq> SNull"
    by (auto simp: stored_row_def no_conversion_def CATEGORIES_TABLE_def)
  have oncec: "insert_into no_conversion gives_up CATEGORIES_TABLE ?c ?u
     = ([[SInteger 3, SText ''m'', SText ''c'', SText ''s'', SText ''u3''],
         [SInteger 5, SText ''w'', SText ''c'', SText ''s'', SText ''new'']], None)"
    by (simp add: db_simps CATEGORIES_TABLE_def)
  have twice: "insert_into no_conversion gives_up PAGES_URLS_TABLE ?d
       [[SInteger 7, SText ''z''], [SInteger 2, SText ''b''], [SInteger 3, SText ''a'']]
     = ([[SInteger 7, SText ''z''], [SInteger 2, SText ''b''], [SInteger 3, SText ''a'']], None)"
    using insert_into_twice [OF ok nn once] by (rule conjunct1)
  have twicec: "insert_into no_conversion gives_up CATEGORIES_TABLE ?c
       [[SInteger 3, SText ''m'', SText ''c'', SText ''s'', SText ''u3''],
        [SInteger 5, SText ''w'', SText ''c'', SText ''s'', SText ''new'']]
     = ([[SInteger 3, SText ''m'', SText ''c'', SText ''s'', SText ''u3''],
         [SInteger 5, SText ''w'', SText ''c'', SText ''s'', SText ''new'']], None)"
    using insert_into_twice [OF okc nnc oncec] by (rule conjunct1)
  have rows: "stored_rows no_conversion PAGES_URLS_TABLE
       [[PyInt 1, PyStr ''a''], [PyInt 2, PyStr ''b''], [PyInt 3, PyStr ''a'']]
     = Inr [[SInteger 1, SText ''a''], [SInteger 2, SText ''b''], [SInteger 3, SText ''a'']]"
    by (simp add: stored_row_def no_conversion_def PAGES_URLS_TABLE_def)
  have ik: "integer_keys PAGES_URLS_TABLE ?t"
    by (simp add: integer_keys_def rowid_alias_def PAGES_URLS_TABLE_def)
  have ikc: "integer_keys CATEGORIES_TABLE ?u"
    by (simp add: integer_keys_def rowid_alias_def CATEGORIES_TABLE_def)
  from once twice rows ik oncec twicec ikc show ?thesis by blast
qed

subsection \<open>Runs that return\<close>

lemma retry_loop_result:
  "snd (retry_loop coro p bf iv js) = Inr r \<Longrightarrow> \<exists>a. coro p a = Returns r"
proof (induction js arbitrary: iv)
  case Nil
  then show ?case by simp
next
  case (Cons a js)
  show ?case
  proof (cases "coro p a")
    case (Returns r')
    with Cons.prems show ?thesis by auto
  next
    case Raises
    show ?thesis
    proof (cases "a < 1024")
      case True
      with Raises Cons.prems
      have "snd (retry_loop coro p bf (bf * 2 ^ a) js) = Inr r"
        by (simp split: prod.splits)
      then show ?thesis by (rule Cons.IH)
    next
      case False
      with Raises Cons.prems show ?thesis by simp
    qed
  qed
qed

lemma semaphore_coroutine_result:
  "semaphore_coroutine coro kw i p = Inr rs \<Longrightarrow> \<exists>a. coro i p a = Returns rs"
  unfolding semaphore_coroutine_def retry_def by (rule retry_loop_result)

lemma flush_returns:
  "table_handler (concat (results s)) (db s) = Inr d' \<Longrightarrow>
   flush table_handler s
     = Inr (s\<lparr>db := d', flushed := flushed s @ [concat (results s)],
              succeeded := succeeded s + length (results s)\<rparr>)"
  by (simp add: flush_def flatten_all_lists)

lemma reduce_done_returns:
  assumes sink: "\<And>recs d. list_all G recs \<Longrightarrow> \<exists>d'. table_handler recs d = Inr d'"
  shows "list_all (list_all G) (results s0) \<Longrightarrow>
    \<forall>t \<in> set ts. \<forall>rs. t = Inr rs \<longrightarrow> list_all G rs \<Longrightarrow>
    \<exists>s. reduce_done table_handler ts s0 = Inr s \<and> list_all (list_all G) (results s)"
proof (induction ts arbitrary: s0)
  case Nil
  then show ?case by simp
next
  case (Cons t ts)
  have "\<exists>s1. handle_done table_handler t s0 = Inr s1 \<and> list_all (list_all G) (results s1)"
  proof (cases t)
    case (Inl e)
    with Cons.prems(1) show ?thesis
      by (cases e) (simp_all add: handle_done_def)
  next
    case (Inr rs)
    with Cons.prems have good: "list_all (list_all G) (results s0 @ [rs])" by simp
    then have "list_all G (concat (results s0 @ [rs]))"
      by (auto simp: list_all_iff)
    from sink [OF this] obtain d' where
      "table_handler (concat (results s0 @ [rs])) (db s0) = Inr d'" by blast
    then have fl: "flush table_handler (s0\<lparr>results := results s0 @ [rs]\<rparr>)
        = Inr (s0\<lparr>results := results s0 @ [rs], db := d',
                 flushed := flushed s0 @ [concat (results s0 @ [rs])],
                 succeeded := succeeded s0 + length (results s0 @ [rs])\<rparr>)"
      using flush_returns [of table_handler "s0\<lparr>results := results s0 @ [rs]\<rparr>" d']
      by simp
    show ?thesis
    proof (cases "BATCH_SIZE \<le> length (results s0) + 1")
      case True
      with Inr fl show ?thesis by (simp add: handle_done_def Let_def del: concat_append)
    next
      case False
      with Inr good show ?thesis by (simp add: handle_done_def Let_def)
    qed
  qed
  then obtain s1 where s1: "handle_done table_handler t s0 = Inr s1"
    and g1: "list_all (list_all G) (results s1)" by blast
  from Cons.IH [OF g1] Cons.prems(2) obtain s where
    "reduce_done table_handler ts s1 = Inr s" "list_all (list_all G) (results s)"
    by auto
  with s1 show ?case by simp
qed

lemma make_requests_returns:
  assumes sink: "\<And>recs d. list_all G recs \<Longrightarrow> \<exists>d'. table_handler recs d = Inr d'"
    and coro: "\<And>i p a rs. coro i p a = Returns rs \<Longrightarrow> list_all G rs"
    and cl: "0 < concurrency_limit"
  shows "\<exists>n failed_items d batches.
    make_requests coro parameters concurrency_limit table_handler kw order db0
      = Return ((n, failed_items), d, batches)"
proof -
  let ?ts = "finished_tasks coro kw parameters order"
  have tasks: "\<forall>t \<in> set ?ts. \<forall>rs. t = Inr rs \<longrightarrow> list_all G rs"
    by (auto simp: finished_tasks_def dest!: semaphore_coroutine_result intro: coro)
  have "\<exists>s. reduce_done table_handler ?ts (initial db0) = Inr s
      \<and> list_all (list_all G) (results s)"
    by (rule reduce_done_returns [of G table_handler, OF sink _ tasks])
      (simp_all add: initial_def)
  then obtain s where
    loop: "reduce_done table_handler ?ts (initial db0) = Inr s" and
    good: "list_all (list_all G) (results s)"
    by blast
  show ?thesis
  proof (cases "results s = []")
    case True
    with loop cl show ?thesis by (simp add: make_requests_def)
  next
    case False
    from good have "list_all G (concat (results s))" by (auto simp: list_all_iff)
    from sink [OF this] obtain d' where "table_handler (concat (results s)) (db s) = Inr d'"
      by blast
    from flush_returns [of table_handler s d', OF this] False loop cl show ?thesis
      by (simp add: make_requests_def)
  qed
qed

subsection \<open>The sequencer\<close>

lemma executemany_storable:
  assumes "\<not> rowid_alias sch"
  shows "\<forall>p \<in> set ps. \<not> isl (stored_row coerce sch p) \<Longrightarrow>
    snd (executemany coerce draw sch ps conn) = None"
proof (induction ps arbitrary: conn)
  case Nil
  then show ?case by simp
next
  case (Cons p ps)
  then obtain r where r: "stored_row coerce sch p = Inr r"
    by (cases "stored_row coerce sch p") auto
  from assms obtain t where "replace_row draw sch r (working conn) = Inr t"
    by (simp add: replace_row_def Let_def)
  with r Cons show ?case by (simp add: execute_insert_or_replace_def)
qed

lemma handler_insert_into_returns:
  assumes "\<not> rowid_alias sch" "list_all (storable coerce sch) data"
  shows "\<exists>t. handler_insert_into coerce draw sch data tbl = Inr t"
proof -
  from assms(2) have "\<forall>p \<in> set (map (map snd) data). \<not> isl (stored_row coerce sch p)"
    by (auto simp: list_all_iff storable_def)
  from executemany_storable [OF assms(1) this, where conn = "connect tbl" and draw = draw]
  show ?thesis
    by (cases "executemany coerce draw sch (map (map snd) data) (connect tbl)")
      (simp add: handler_insert_into_def insert_into_def)
qed

lemma stage_returns:
  assumes "\<not> rowid_alias sch" "yields_storable coerce sch coro"
  shows "\<exists>n failed_items t batches.
    make_requests coro items CONCURRENCY_LIMIT (handler_insert_into coerce draw sch) default_kwargs
        order tbl
      = Return ((n, failed_items), t, batches)"
proof (rule make_requests_returns [where G = "storable coerce sch"])
  show "\<exists>d'. handler_insert_into coerce draw sch recs d = Inr d'"
    if "list_all (storable coerce sch) recs" for recs d
    using that by (rule handler_insert_into_returns [OF assms(1)])
  show "list_all (storable coerce sch) rs" if "coro i p a = Returns rs" for i p a rs
    using assms(2) that by (auto simp: yields_storable_def)
  show "0 < CONCURRENCY_LIMIT" by (simp add: CONCURRENCY_LIMIT_def)
qed

lemma hidden_rowid_tables:
  "\<not> rowid_alias PAGES_URLS_TABLE" "\<not> rowid_alias ARTICLES_URLS_TABLE"
  "\<not> rowid_alias ARTICLES_DATA_TABLE" "rowid_alias CATEGORIES_TABLE"
  by (simp_all add: rowid_alias_def PAGES_URLS_TABLE_def ARTICLES_URLS_TABLE_def
      ARTICLES_DATA_TABLE_def CATEGORIES_TABLE_def)

text \<open>
  Claim C7, amended. When \<open>extract_categories_urls\<close> returns, the categories are stored
  without an error and every record that an extractor returns can be stored in its table,
  then, whatever requests fail and in whatever order the tasks finish, the run returns
  and its four stages run in order: the categories are extracted and stored directly,
  and three passes of \<open>make_requests\<close> follow. The work items of the pages pass are the
  extracted categories as held in memory; the work items of the article-URL pass are the
  rows of \<open>pages_urls\<close> read back from storage after the pages pass, and those of the
  article-data pass are the rows of \<open>articles_urls\<close> read back after the article-URL pass.
  The failed requests of a pass are reported with their number and do not keep the later
  stages from running.
\<close>

theorem stages_run_in_order:
  assumes cats: "extract_categories_urls w = Inr categories"
    and stored: "insert_into coerce (random_rowid w) CATEGORIES_TABLE categories
                   (categories_table d0) = (t1, None)"
    and y2: "yields_storable coerce PAGES_URLS_TABLE (compile_page_urls w)"
    and y3: "yields_storable coerce ARTICLES_URLS_TABLE (compile_article_urls w)"
    and y4: "yields_storable coerce ARTICLES_DATA_TABLE (compile_article_data w)"
  shows "\<exists>d pages_urls articles_urls n2 failed2 b2 n3 failed3 b3 n4 failed4 b4.
      scrape_ecommerce_site coerce w d0
        = Return (d,
            [Info 1, Success 1, Info 2] @ report 2 failed2 categories
              @ [Success 2, Info 3] @ report 3 failed3 pages_urls
              @ [Success 3, Info 4] @ report 4 failed4 articles_urls @ [Success 4],
            [categories, pages_urls, articles_urls])
    \<and> categories_table d = t1
    \<and> make_requests (compile_page_urls w) categories CONCURRENCY_LIMIT
          (handler_insert_into coerce (random_rowid w) PAGES_URLS_TABLE) default_kwargs
          (scheduler w 2 (length categories)) (pages_urls_table d0)
        = Return ((n2, failed2), pages_urls_table d, b2)
    \<and> pages_urls = to_records PAGES_URLS_TABLE (pages_urls_table d)
    \<and> make_requests (compile_article_urls w) pages_urls CONCURRENCY_LIMIT
          (handler_insert_into coerce (random_rowid w) ARTICLES_URLS_TABLE) default_kwargs
          (scheduler w 3 (length pages_urls)) (articles_urls_table d0)
        = Return ((n3, failed3), articles_urls_table d, b3)
    \<and> articles_urls = to_records ARTICLES_URLS_TABLE (articles_urls_table d)
    \<and> make_requests (compile_article_data w) articles_urls CONCURRENCY_LIMIT
          (handler_insert_into coerce (random_rowid w) ARTICLES_DATA_TABLE) default_kwargs
          (scheduler w 4 (length articles_urls)) (articles_data_table d0)
        = Return ((n4, failed4), articles_data_table d, b4)"
proof -
  from stage_returns [OF hidden_rowid_tables(1) y2] obtain n2 failed2 t2 b2 where
    s2: "make_requests (compile_page_urls w) categories CONCURRENCY_LIMIT
          (handler_insert_into coerce (random_rowid w) PAGES_URLS_TABLE) default_kwargs
          (scheduler w 2 (length categories)) (pages_urls_table d0)
        = Return ((n2, failed2), t2, b2)"
    by blast
  let ?pages = "to_records PAGES_URLS_TABLE t2"
  from stage_returns [OF hidden_rowid_tables(2) y3] obtain n3 failed3 t3 b3 where
    s3: "make_requests (compile_article_urls w) ?pages CONCURRENCY_LIMIT
          (handler_insert_into coerce (random_rowid w) ARTICLES_URLS_TABLE) default_kwargs
          (scheduler w 3 (length ?pages)) (articles_urls_table d0)
        = Return ((n3, failed3), t3, b3)"
    by blast
  let ?articles = "to_records ARTICLES_URLS_TABLE t3"
  from stage_returns [OF hidden_rowid_tables(3) y4] obtain n4 failed4 t4 b4 where
    s4: "make_requests (compile_article_data w) ?articles CONCURRENCY_LIMIT
          (handler_insert_into coerce (random_rowid w) ARTICLES_DATA_TABLE) default_kwargs
          (scheduler w 4 (length ?articles)) (articles_data_table d0)
        = Return ((n4, failed4), t4, b4)"
    by blast
  let ?d = "\<lparr>categories_table = t1, pages_urls_table = t2,
             articles_urls_table = t3, articles_data_table = t4\<rparr>"
  have run: "scrape_ecommerce_site coerce w d0
        = Return (?d,
            [Info 1, Success 1, Info 2] @ report 2 failed2 categories
              @ [Success 2, Info 3] @ report 3 failed3 ?pages
              @ [Success 3, Info 4] @ report 4 failed4 ?articles @ [Success 4],
            [categories, ?pages, ?articles])"
    by (simp add: scrape_ecommerce_site_def cats stored s2 s3 s4 Let_def)
  show ?thesis
    apply (rule exI [of _ ?d])
    apply (rule exI [of _ ?pages])
    apply (rule exI [of _ ?articles])
    apply (rule exI [of _ n2], rule exI [of _ failed2], rule exI [of _ b2])
    apply (rule exI [of _ n3], rule exI [of _ failed3], rule exI [of _ b3])
    apply (rule exI [of _ n4], rule exI [of _ failed4], rule exI [of _ b4])
    using run s2 s3 s4 by simp
qed

lemmas seq_simps = scrape_ecommerce_site_def handler_insert_into_def to_records_def report_def
  CONCURRENCY_LIMIT_def default_kwargs_def CATEGORIES_TABLE_def PAGES_URLS_TABLE_def
  ARTICLES_URLS_TABLE_def ARTICLES_DATA_TABLE_def example_category_def

text \<open>
  Claim C7, as stated, fails. In the first run the table \<open>categories\<close> holds a row of an
  earlier run: the work items of the pages pass are the one category just extracted, as
  held in memory, not the two records that reading the stored table back would give.
  In the second run \<open>extract_categories_urls\<close> raises: the run ends there, and no later
  stage runs.
\<close>

theorem stage_two_reads_memory:
  "(case scrape_ecommerce_site no_conversion offline_world earlier_database of
      Return (d, entries, passes) \<Rightarrow>
        hd passes = [example_category]
        \<and> to_records CATEGORIES_TABLE (categories_table d)
            = [[(''id'', PyInt 9), (''gender'', PyStr ''men''), (''category'', PyStr ''old''),
                (''subcategory'', PyStr ''old''), (''base_url'', PyStr ''v'')],
               example_category]
        \<and> hd passes \<noteq> to_records CATEGORIES_TABLE (categories_table d)
    | Raise e \<Rightarrow> False
    | Hang \<Rightarrow> False)
   \<and> scrape_ecommerce_site no_conversion
        (offline_world\<lparr>extract_categories_urls := Inl ()\<rparr>) earlier_database
      = Raise CategoriesError"
  by (simp add: seq_simps run_simps db_simps offline_world_def earlier_database_def)

theorem stages_run_in_order_witness:
  "scrape_ecommerce_site no_conversion example_world empty_database
     = Return
        (\<lparr>categories_table = [[SInteger 4172, SText ''women'', SText ''shoes'', SText ''shoes'',
                                SText ''u'']],
          pages_urls_table = [[SInteger 4172, SText ''u1''], [SInteger 4172, SText ''u2'']],
          articles_urls_table = [[SInteger 4172, SText ''u1'', SText ''a1'']],
          articles_data_table = [[SInteger 4172, SText ''a1'', SText ''d'', SText ''c'',
                                  SText ''[]'', SText ''[]'', SText ''[]'']]\<rparr>,
         [Info 1, Success 1, Info 2, Success 2, Info 3, Error 3 1 2, Success 3, Info 4,
          Success 4],
         [[example_category],
          [[(''id'', PyInt 4172), (''page_url'', PyStr ''u1'')],
           [(''id'', PyInt 4172), (''page_url'', PyStr ''u2'')]],
          [[(''id'', PyInt 4172), (''page_url'', PyStr ''u1''), (''article_url'', PyStr ''a1'')]]])"
proof -
  have cats: "extract_categories_urls example_world = Inr [example_category]"
    by (simp add: example_world_def)
  have stored: "insert_into no_conversion (random_rowid example_world) CATEGORIES_TABLE
      [example_category] (categories_table empty_database)
    = ([[SInteger 4172, SText ''women'', SText ''shoes'', SText ''shoes'', SText ''u'']], None)"
    by (simp add: db_simps CATEGORIES_TABLE_def example_category_def empty_database_def)
  have y2: "yields_storable no_conversion PAGES_URLS_TABLE (compile_page_urls example_world)"
    by (auto simp: yields_storable_def storable_def stored_row_def PAGES_URLS_TABLE_def
        example_world_def)
  have y3: "yields_storable no_conversion ARTICLES_URLS_TABLE
      (compile_article_urls example_world)"
    by (auto simp: yields_storable_def storable_def stored_row_def ARTICLES_URLS_TABLE_def
        example_world_def split: if_splits)
  have y4: "yields_storable no_conversion ARTICLES_DATA_TABLE
      (compile_article_data example_world)"
    by (auto simp: yields_storable_def storable_def stored_row_def ARTICLES_DATA_TABLE_def
        example_world_def)
  from stages_run_in_order [OF cats stored y2 y3 y4] show ?thesis
    by (simp add: seq_simps run_simps db_simps example_world_def empty_database_def)
qed

subsection \<open>The concurrency limiter\<close>









end
